theory Spec2Isabelle
  imports Complex_Main
begin

section \<open>Level catalog (app/config/levels.ts)\<close>

text \<open>
  JavaScript numbers that the catalog only ever fills with whole values (ids, scores,
  limits) are integers here; the optional result of \<open>Array.find\<close> is an \<open>option\<close>.
\<close>

datatype difficulty = easy | medium | hard

record Level =
  level_id :: int
  name :: string
  difficulty :: difficulty
  timeLimit :: int
  targetScore :: int
  obstacles :: int
  powerUps :: int
  coinValue :: int
  background :: string
  isPlayable :: bool
  comingSoon :: bool

definition mkLevel ::
  "int \<Rightarrow> string \<Rightarrow> difficulty \<Rightarrow> int \<Rightarrow> int \<Rightarrow> int \<Rightarrow> int \<Rightarrow> int \<Rightarrow> string \<Rightarrow> bool \<Rightarrow> bool \<Rightarrow> Level"
  where
  "mkLevel i n d tlim tsc ob pu cv bg pl cs =
     \<lparr> level_id = i, name = n, difficulty = d, timeLimit = tlim, targetScore = tsc,
       obstacles = ob, powerUps = pu, coinValue = cv, background = bg,
       isPlayable = pl, comingSoon = cs \<rparr>"

definition LEVELS :: "Level list" where
  "LEVELS =
    [ mkLevel 1 ''Getting Started'' easy 60 100 5 3 10 ''#87CEEB'' True False,
      mkLevel 2 ''Level Up'' medium 45 200 10 2 15 ''#FFB347'' True False,
      mkLevel 3 ''Expert Challenge'' hard 30 300 20 1 20 ''#FF6961'' True False,
      mkLevel 4 ''Advanced Trial'' hard 30 400 25 1 25 ''#9B59B6'' False True,
      mkLevel 5 ''Speed Run'' hard 20 350 30 1 30 ''#E74C3C'' False True,
      mkLevel 6 ''Master Class'' hard 25 500 35 0 35 ''#1ABC9C'' False True,
      mkLevel 7 ''Nightmare Mode'' hard 20 600 40 0 40 ''#34495E'' False True,
      mkLevel 8 ''Epic Journey'' hard 40 700 45 2 45 ''#16A085'' False True,
      mkLevel 9 ''Ultimate Test'' hard 35 800 50 1 50 ''#2C3E50'' False True,
      mkLevel 10 ''Legendary'' hard 50 1000 60 2 60 ''#8E44AD'' False True ]"

definition getLevelById :: "int \<Rightarrow> Level option" where
  "getLevelById i = find (\<lambda>level. level_id level = i) LEVELS"

definition getNextLevel :: "int \<Rightarrow> Level option" where
  "getNextLevel currentLevelId = find (\<lambda>level. level_id level = currentLevelId + 1) LEVELS"

definition getTotalLevels :: nat where
  "getTotalLevels = length LEVELS"

definition getPlayableLevels :: "Level list" where
  "getPlayableLevels = filter (\<lambda>level. isPlayable level) LEVELS"

definition getLockedLevels :: "Level list" where
  "getLockedLevels = filter (\<lambda>level. \<not> isPlayable level) LEVELS"

definition isLevelPlayable :: "int \<Rightarrow> bool" where
  "isLevelPlayable levelId =
     (case getLevelById levelId of Some level \<Rightarrow> isPlayable level | None \<Rightarrow> False)"

definition isLevelUnlocked :: "int \<Rightarrow> int list \<Rightarrow> bool" where
  "isLevelUnlocked levelId completedLevelIds =
     (case getLevelById levelId of
        None \<Rightarrow> False
      | Some level \<Rightarrow>
          if \<not> isPlayable level then False
          else if levelId = 1 then True
          else (levelId - 1) \<in> set completedLevelIds)"

section \<open>Card engine: round resolution (CardEngine.determineWinner)\<close>

datatype gamePhase = player | opponent | result

datatype winner = Player | Opponent

record CardState =
  playerScore :: int
  opponentScore :: int
  currentCard :: int
  round :: int
  phase :: gamePhase
  wins :: int
  losses :: int

definition TARGET :: int where
  "TARGET = 20"

definition ROUNDS_TO_WIN :: int where
  "ROUNDS_TO_WIN = 3"

text \<open>The branch chain that picks the winner of a round, in the order of the source.\<close>

definition roundWinner :: "int \<Rightarrow> int \<Rightarrow> winner" where
  "roundWinner pScore oScore =
     (if pScore > TARGET then Opponent
      else if oScore > TARGET then Player
      else if pScore > oScore then Player
      else Opponent)"

text \<open>
  \<open>determineWinner\<close> enters the result phase and credits the round: a win to \<open>wins\<close>,
  anything else to \<open>losses\<close>. The alert shown to the user is not part of the state.
\<close>

definition determineWinner :: "CardState \<Rightarrow> int \<Rightarrow> int \<Rightarrow> CardState" where
  "determineWinner s pScore oScore =
     (let s1 = s\<lparr>phase := result\<rparr>
      in if roundWinner pScore oScore = Player
         then s1\<lparr>wins := wins s1 + 1\<rparr>
         else s1\<lparr>losses := losses s1 + 1\<rparr>)"

section \<open>Vectors and physics bodies (app/game/runtime/physics2d.ts)\<close>

text \<open>
  For the physics body and the events of the input manager a JavaScript number is a
  real number, so the arithmetic is exact; the length of a vector and its
  normalization are modelled in double precision further down. The record
  fields \<open>x\<close> and \<open>y\<close> are \<open>vec_x\<close> and \<open>vec_y\<close>. Vectors are values: every
  method of the class returns a fresh object except \<open>set\<close>, which \<open>update\<close> uses on
  the body's own acceleration object only.
\<close>

record Vector2D =
  vec_x :: real
  vec_y :: real

definition Vector2D_new :: "real \<Rightarrow> real \<Rightarrow> Vector2D" where
  "Vector2D_new a b = \<lparr> vec_x = a, vec_y = b \<rparr>"

definition add :: "Vector2D \<Rightarrow> Vector2D \<Rightarrow> Vector2D" where
  "add v other = Vector2D_new (vec_x v + vec_x other) (vec_y v + vec_y other)"

definition subtract :: "Vector2D \<Rightarrow> Vector2D \<Rightarrow> Vector2D" where
  "subtract v other = Vector2D_new (vec_x v - vec_x other) (vec_y v - vec_y other)"

definition multiply :: "Vector2D \<Rightarrow> real \<Rightarrow> Vector2D" where
  "multiply v scalar = Vector2D_new (vec_x v * scalar) (vec_y v * scalar)"

definition divide_v :: "Vector2D \<Rightarrow> real \<Rightarrow> Vector2D" where
  "divide_v v scalar =
     (if scalar = 0 then Vector2D_new 0 0
      else Vector2D_new (vec_x v / scalar) (vec_y v / scalar))"

record PhysicsBody =
  position :: Vector2D
  velocity :: Vector2D
  acceleration :: Vector2D
  mass :: real
  friction :: real
  restitution :: real

definition PhysicsBody_new :: "real \<Rightarrow> real \<Rightarrow> PhysicsBody" where
  "PhysicsBody_new a b =
     \<lparr> position = Vector2D_new a b, velocity = Vector2D_new 0 0,
       acceleration = Vector2D_new 0 0, mass = 1, friction = 0.1, restitution = 0.5 \<rparr>"

definition applyForce :: "PhysicsBody \<Rightarrow> Vector2D \<Rightarrow> PhysicsBody" where
  "applyForce b force =
     (let acc = divide_v force (mass b)
      in b\<lparr>acceleration := add (acceleration b) acc\<rparr>)"

definition update :: "PhysicsBody \<Rightarrow> real \<Rightarrow> PhysicsBody" where
  "update b deltaTime =
     (let b1 = b\<lparr>velocity := add (velocity b) (multiply (acceleration b) deltaTime)\<rparr>;
          b2 = b1\<lparr>velocity := multiply (velocity b1) (1 - friction b1)\<rparr>;
          b3 = b2\<lparr>position := add (position b2) (multiply (velocity b2) deltaTime)\<rparr>
      in b3\<lparr>acceleration := Vector2D_new 0 0\<rparr>)"

definition applyGravity :: "PhysicsBody \<Rightarrow> real \<Rightarrow> PhysicsBody" where
  "applyGravity b gravity = applyForce b (Vector2D_new 0 (gravity * mass b))"

section \<open>Double-precision vectors (Vector2D.magnitude, divide and normalize)\<close>

text \<open>
  For the length of a vector the range of a JavaScript number matters, so here a
  number is an IEEE 754 double: a finite double (the real number it denotes), an
  infinity, or NaN. The two zeros are one value; the sign of a zero does not reach a
  magnitude. An arithmetic operation and \<open>Math.sqrt\<close> return the exact result rounded
  to the nearest double, ties to the even mantissa; a result at or beyond
  \<open>2^1024 - 2^970\<close> (the largest double plus half of its last place) overflows to an
  infinity.
\<close>

datatype number = Finite real | PosInfinity | NegInfinity | NaN

definition roundHalfEven :: "real \<Rightarrow> int" where
  "roundHalfEven t =
     (let f = \<lfloor>t\<rfloor>
      in if t - of_int f < 1 / 2 then f
         else if t - of_int f > 1 / 2 then f + 1
         else if even f then f else f + 1)"

text \<open>
  The spacing of the doubles around \<open>t\<close>: 52 binary places below the leading bit of
  \<open>t\<close>, and \<open>2^-1074\<close> in the subnormal range.
\<close>

definition quantum :: "real \<Rightarrow> real" where
  "quantum t = 2 powr (of_int (max \<lfloor>log 2 \<bar>t\<bar>\<rfloor> (- 1022)) - 52)"

definition roundDouble :: "real \<Rightarrow> real" where
  "roundDouble t =
     (if t = 0 then 0 else quantum t * of_int (roundHalfEven (t / quantum t)))"

definition overflowThreshold :: real where
  "overflowThreshold = 2 ^ 1024 - 2 ^ 970"

text \<open>
  The unit roundoff \<open>2^-53\<close> (half the spacing relative to a normal double) and half
  the spacing of the subnormal doubles, \<open>2^-1075\<close>.
\<close>

definition unitRoundoff :: real where
  "unitRoundoff = 1 / 2 ^ 53"

definition halfSubnormal :: real where
  "halfSubnormal = 1 / 2 ^ 1075"

definition fl :: "real \<Rightarrow> number" where
  "fl t =
     (if \<bar>t\<bar> \<ge> overflowThreshold then (if t > 0 then PosInfinity else NegInfinity)
      else Finite (roundDouble t))"

fun num_mul :: "number \<Rightarrow> number \<Rightarrow> number" where
  "num_mul (Finite a) (Finite b) = fl (a * b)"
| "num_mul NaN b = NaN"
| "num_mul a NaN = NaN"
| "num_mul (Finite a) PosInfinity =
     (if a = 0 then NaN else if a > 0 then PosInfinity else NegInfinity)"
| "num_mul (Finite a) NegInfinity =
     (if a = 0 then NaN else if a > 0 then NegInfinity else PosInfinity)"
| "num_mul PosInfinity (Finite b) =
     (if b = 0 then NaN else if b > 0 then PosInfinity else NegInfinity)"
| "num_mul NegInfinity (Finite b) =
     (if b = 0 then NaN else if b > 0 then NegInfinity else PosInfinity)"
| "num_mul PosInfinity PosInfinity = PosInfinity"
| "num_mul PosInfinity NegInfinity = NegInfinity"
| "num_mul NegInfinity PosInfinity = NegInfinity"
| "num_mul NegInfinity NegInfinity = PosInfinity"

fun num_add :: "number \<Rightarrow> number \<Rightarrow> number" where
  "num_add (Finite a) (Finite b) = fl (a + b)"
| "num_add NaN b = NaN"
| "num_add a NaN = NaN"
| "num_add PosInfinity NegInfinity = NaN"
| "num_add NegInfinity PosInfinity = NaN"
| "num_add PosInfinity b = PosInfinity"
| "num_add NegInfinity b = NegInfinity"
| "num_add a PosInfinity = PosInfinity"
| "num_add a NegInfinity = NegInfinity"

text \<open>
  A finite number over a zero is given here for the zero \<open>+0\<close>; \<open>divide\<close> tests its
  divisor against 0 first and never divides by one.
\<close>

fun num_div :: "number \<Rightarrow> number \<Rightarrow> number" where
  "num_div (Finite a) (Finite b) =
     (if b = 0 then (if a = 0 then NaN else if a > 0 then PosInfinity else NegInfinity)
      else fl (a / b))"
| "num_div NaN b = NaN"
| "num_div a NaN = NaN"
| "num_div (Finite a) PosInfinity = Finite 0"
| "num_div (Finite a) NegInfinity = Finite 0"
| "num_div PosInfinity (Finite b) = (if b \<ge> 0 then PosInfinity else NegInfinity)"
| "num_div NegInfinity (Finite b) = (if b \<ge> 0 then NegInfinity else PosInfinity)"
| "num_div PosInfinity PosInfinity = NaN"
| "num_div PosInfinity NegInfinity = NaN"
| "num_div NegInfinity PosInfinity = NaN"
| "num_div NegInfinity NegInfinity = NaN"

fun num_sqrt :: "number \<Rightarrow> number" where
  "num_sqrt (Finite a) = (if a < 0 then NaN else fl (sqrt a))"
| "num_sqrt PosInfinity = PosInfinity"
| "num_sqrt NegInfinity = NaN"
| "num_sqrt NaN = NaN"

record Vector2D64 =
  x64 :: number
  y64 :: number

definition Vector2D64_new :: "number \<Rightarrow> number \<Rightarrow> Vector2D64" where
  "Vector2D64_new a b = \<lparr> x64 = a, y64 = b \<rparr>"

text \<open>\<open>scalar === 0\<close> holds of a zero only: NaN and the infinities are not equal to 0.\<close>

definition divide64 :: "Vector2D64 \<Rightarrow> number \<Rightarrow> Vector2D64" where
  "divide64 v scalar =
     (if scalar = Finite 0 then Vector2D64_new (Finite 0) (Finite 0)
      else Vector2D64_new (num_div (x64 v) scalar) (num_div (y64 v) scalar))"

definition magnitude :: "Vector2D64 \<Rightarrow> number" where
  "magnitude v = num_sqrt (num_add (num_mul (x64 v) (x64 v)) (num_mul (y64 v) (y64 v)))"

definition normalize_v :: "Vector2D64 \<Rightarrow> Vector2D64" where
  "normalize_v v =
     (let mag = magnitude v
      in if mag = Finite 0 then Vector2D64_new (Finite 0) (Finite 0) else divide64 v mag)"

section \<open>Particle system (app/game/runtime/rendering.ts)\<close>

text \<open>
  \<open>Math.random\<close> is a stream \<open>rnd\<close> read at a running index; \<open>emit\<close> returns the
  index after its draws. The options object and each of its fields may be absent, and
  the spread over the defaults fills what is; a field that is given holds a value of
  its declared type (an options object with a field set to \<open>undefined\<close> is not an
  input of this model). The maximum and the requested count are JavaScript numbers,
  so reals.
\<close>

record Particle =
  p_x :: real
  p_y :: real
  p_vx :: real
  p_vy :: real
  p_life :: real
  p_maxLife :: real
  p_size :: real
  p_color :: string

record ParticleSystem =
  particles :: "Particle list"
  maxParticles :: real

record EmitOptions =
  velocityRange :: "(real \<times> real) option"
  lifeRange :: "(real \<times> real) option"
  sizeRange :: "(real \<times> real) option"
  color :: "string option"

record EmitOpts =
  opt_velocityRange :: "real \<times> real"
  opt_lifeRange :: "real \<times> real"
  opt_sizeRange :: "real \<times> real"
  opt_color :: string

definition ParticleSystem_new :: "real \<Rightarrow> ParticleSystem" where
  "ParticleSystem_new maxP = \<lparr> particles = [], maxParticles = maxP \<rparr>"

definition defaults :: EmitOpts where
  "defaults = \<lparr> opt_velocityRange = (-100, 100), opt_lifeRange = (500, 1500),
                opt_sizeRange = (2, 6), opt_color = ''#FFFFFF'' \<rparr>"

definition merge_options :: "EmitOptions option \<Rightarrow> EmitOpts" where
  "merge_options options =
     (case options of
        None \<Rightarrow> defaults
      | Some opt \<Rightarrow>
          \<lparr> opt_velocityRange = (case velocityRange opt of None \<Rightarrow> opt_velocityRange defaults | Some r \<Rightarrow> r),
            opt_lifeRange = (case lifeRange opt of None \<Rightarrow> opt_lifeRange defaults | Some r \<Rightarrow> r),
            opt_sizeRange = (case sizeRange opt of None \<Rightarrow> opt_sizeRange defaults | Some r \<Rightarrow> r),
            opt_color = (case color opt of None \<Rightarrow> opt_color defaults | Some c \<Rightarrow> c) \<rparr>)"

definition spawn :: "(nat \<Rightarrow> real) \<Rightarrow> nat \<Rightarrow> real \<Rightarrow> real \<Rightarrow> EmitOpts \<Rightarrow> Particle" where
  "spawn rnd k x y opts =
     (let vx = rnd k * (snd (opt_velocityRange opts) - fst (opt_velocityRange opts))
                 + fst (opt_velocityRange opts);
          vy = rnd (k + 1) * (snd (opt_velocityRange opts) - fst (opt_velocityRange opts))
                 + fst (opt_velocityRange opts);
          life = rnd (k + 2) * (snd (opt_lifeRange opts) - fst (opt_lifeRange opts))
                 + fst (opt_lifeRange opts);
          size = rnd (k + 3) * (snd (opt_sizeRange opts) - fst (opt_sizeRange opts))
                 + fst (opt_sizeRange opts)
      in \<lparr> p_x = x, p_y = y, p_vx = vx, p_vy = vy, p_life = life, p_maxLife = life,
           p_size = size, p_color = opt_color opts \<rparr>)"

function emit_loop ::
  "(nat \<Rightarrow> real) \<Rightarrow> real \<Rightarrow> real \<Rightarrow> real \<Rightarrow> EmitOpts \<Rightarrow> nat \<Rightarrow> nat \<Rightarrow> ParticleSystem
     \<Rightarrow> ParticleSystem \<times> nat" where
  "emit_loop rnd x y cnt opts i k s =
     (if real i < cnt \<and> real (length (particles s)) < maxParticles s
      then emit_loop rnd x y cnt opts (i + 1) (k + 4)
             (s\<lparr>particles := particles s @ [spawn rnd k x y opts]\<rparr>)
      else (s, k))"
  by pat_completeness auto
termination
  by (relation "measure (\<lambda>(rnd, x, y, cnt, opts, i, k, s). nat \<lceil>cnt - real i\<rceil>)") (auto, linarith)

definition emit ::
  "(nat \<Rightarrow> real) \<Rightarrow> nat \<Rightarrow> ParticleSystem \<Rightarrow> real \<Rightarrow> real \<Rightarrow> real \<Rightarrow> EmitOptions option
     \<Rightarrow> ParticleSystem \<times> nat" where
  "emit rnd k s x y cnt options = emit_loop rnd x y cnt (merge_options options) 0 k s"

definition age :: "real \<Rightarrow> Particle \<Rightarrow> Particle" where
  "age deltaTime p =
     p\<lparr> p_x := p_x p + p_vx p * deltaTime,
        p_y := p_y p + p_vy p * deltaTime,
        p_life := p_life p - deltaTime * 1000 \<rparr>"

text \<open>
  The loop of \<open>update\<close> runs from the last index down to 0 and splices a dead particle
  out at once; \<open>update_loop dt (Suc i) ps\<close> is the iteration at index \<open>i\<close>.
\<close>

fun update_loop :: "real \<Rightarrow> nat \<Rightarrow> Particle list \<Rightarrow> Particle list" where
  "update_loop deltaTime 0 ps = ps"
| "update_loop deltaTime (Suc i) ps =
     (let p = age deltaTime (ps ! i);
          ps1 = ps[i := p];
          ps2 = (if p_life p \<le> 0 then take i ps1 @ drop (Suc i) ps1 else ps1)
      in update_loop deltaTime i ps2)"

definition update_ps :: "ParticleSystem \<Rightarrow> real \<Rightarrow> ParticleSystem" where
  "update_ps s deltaTime =
     s\<lparr>particles := update_loop deltaTime (length (particles s)) (particles s)\<rparr>"

definition clear_ps :: "ParticleSystem \<Rightarrow> ParticleSystem" where
  "clear_ps s = s\<lparr>particles := []\<rparr>"

definition count :: "ParticleSystem \<Rightarrow> nat" where
  "count s = length (particles s)"

datatype ps_call = CallEmit real real real "EmitOptions option" | CallUpdate real | CallClear | CallCount

fun ps_step :: "(nat \<Rightarrow> real) \<Rightarrow> ParticleSystem \<times> nat \<Rightarrow> ps_call \<Rightarrow> ParticleSystem \<times> nat" where
  "ps_step rnd (s, k) (CallEmit x y cnt options) = emit rnd k s x y cnt options"
| "ps_step rnd (s, k) (CallUpdate deltaTime) = (update_ps s deltaTime, k)"
| "ps_step rnd (s, k) CallClear = (clear_ps s, k)"
| "ps_step rnd (s, k) CallCount = (s, k)"

definition ps_run :: "(nat \<Rightarrow> real) \<Rightarrow> ps_call list \<Rightarrow> ParticleSystem \<times> nat \<Rightarrow> ParticleSystem \<times> nat" where
  "ps_run rnd calls st = foldl (ps_step rnd) st calls"

section \<open>Puzzle engine (app/game/types/puzzle/PuzzleEngine.tsx)\<close>

text \<open>
  The callbacks an engine receives in its \<open>GameEngineProps\<close>; a call is logged in the
  order it is made.
\<close>

datatype callback = onScoreChange int | onLivesChange int | onWin | onLose

datatype js_error = TypeError

definition GRID_SIZE :: nat where
  "GRID_SIZE = 6"

definition COLORS :: "string list" where
  "COLORS = [''#e8d5b7'', ''#b8d4e3'', ''#d4e8d4'', ''#f4c2c2'', ''#e8d4f4'']"

text \<open>
  A tile's id is the text \<open>row-col-time\<close>; the three numbers it is made of stand for it.
\<close>

record Tile =
  tile_color :: string
  tile_id :: "nat \<times> nat \<times> nat"

type_synonym grid = "Tile list list"

record PuzzleState =
  grid :: grid
  score :: int
  selectedTile :: "(nat \<times> nat) option"
  moves :: int

text \<open>\<open>COLORS[Math.floor(Math.random() * COLORS.length)]\<close> for a draw \<open>r\<close> in [0, 1).\<close>

definition randomColor :: "real \<Rightarrow> string" where
  "randomColor r = COLORS ! nat \<lfloor>r * real (length COLORS)\<rfloor>"

definition newTile :: "real \<Rightarrow> nat \<Rightarrow> nat \<Rightarrow> nat \<Rightarrow> Tile" where
  "newTile r row col now = \<lparr> tile_color = randomColor r, tile_id = (row, col, now) \<rparr>"

text \<open>
  Reading the colour of a cell that the grid does not have throws a \<open>TypeError\<close>:
  the row is \<open>undefined\<close>, or the tile is and \<open>.color\<close> is read from it.
\<close>

definition colorAt :: "grid \<Rightarrow> nat \<times> nat \<Rightarrow> js_error + string" where
  "colorAt g p =
     (if fst p < length g \<and> snd p < length (g ! fst p)
      then Inr (tile_color (g ! fst p ! snd p)) else Inl TypeError)"

text \<open>
  One iteration of a scan, on the cells \<open>p1\<close>, \<open>p2\<close>, \<open>p3\<close> of a window: the test
  \<open>p1.color === p2.color && p1.color === p3.color\<close> reads the third cell only when
  the first two agree, and the three positions are pushed when it holds.
\<close>

definition matchAt ::
  "grid \<Rightarrow> nat \<times> nat \<Rightarrow> nat \<times> nat \<Rightarrow> nat \<times> nat \<Rightarrow> js_error + (nat \<times> nat) list" where
  "matchAt g p1 p2 p3 =
     (case colorAt g p1 of
        Inl e \<Rightarrow> Inl e
      | Inr c1 \<Rightarrow>
          (case colorAt g p2 of
             Inl e \<Rightarrow> Inl e
           | Inr c2 \<Rightarrow>
               if c1 \<noteq> c2 then Inr []
               else (case colorAt g p3 of
                       Inl e \<Rightarrow> Inl e
                     | Inr c3 \<Rightarrow> Inr (if c1 = c3 then [p1, p2, p3] else []))))"

text \<open>The iterations of a scan in order: the first one that throws ends it.\<close>

fun pushAll :: "(js_error + (nat \<times> nat) list) list \<Rightarrow> js_error + (nat \<times> nat) list" where
  "pushAll [] = Inr []"
| "pushAll (r # rs) =
     (case r of
        Inl e \<Rightarrow> Inl e
      | Inr ps \<Rightarrow> (case pushAll rs of Inl e \<Rightarrow> Inl e | Inr qs \<Rightarrow> Inr (ps @ qs)))"

definition horizontalMatches :: "grid \<Rightarrow> js_error + (nat \<times> nat) list" where
  "horizontalMatches g =
     pushAll (concat (map (\<lambda>row. map (\<lambda>col.
        matchAt g (row, col) (row, col + 1) (row, col + 2))
       [0..<GRID_SIZE - 2]) [0..<GRID_SIZE]))"

definition verticalMatches :: "grid \<Rightarrow> js_error + (nat \<times> nat) list" where
  "verticalMatches g =
     pushAll (concat (map (\<lambda>col. map (\<lambda>row.
        matchAt g (row, col) (row + 1, col) (row + 2, col))
       [0..<GRID_SIZE - 2]) [0..<GRID_SIZE]))"

text \<open>
  \<open>Array.from(new Set(keys))\<close>: the first occurrence of each key, in insertion order.
  The keys \<open>row-col\<close> are parsed back into the same two numbers, so the positions
  themselves are the keys here.
\<close>

fun uniqueKeys :: "'a list \<Rightarrow> 'a list \<Rightarrow> 'a list" where
  "uniqueKeys seen [] = seen"
| "uniqueKeys seen (k # ks) = uniqueKeys (if k \<in> set seen then seen else seen @ [k]) ks"

text \<open>The \<open>forEach\<close> that replaces the matched tiles, one random draw for each.\<close>

fun replaceMatched ::
  "(nat \<Rightarrow> real) \<Rightarrow> nat \<Rightarrow> (nat \<times> nat) list \<Rightarrow> nat \<Rightarrow> grid \<Rightarrow> grid \<times> nat" where
  "replaceMatched rnd now [] k g = (g, k)"
| "replaceMatched rnd now ((row, col) # ms) k g =
     replaceMatched rnd now ms (k + 1)
       (g[row := (g ! row)[col := newTile (rnd k) row col now]])"

text \<open>
  \<open>checkMatches\<close> on the grid and score of the state, with the level's \<open>coinValue\<close>, the
  random stream from index \<open>k\<close> on and the clock at \<open>now\<close>. It returns the new state,
  the next random index and the callbacks made, or the error a scan has thrown (the
  state is then as it was).
\<close>

definition checkMatches ::
  "(nat \<Rightarrow> real) \<Rightarrow> nat \<Rightarrow> nat \<Rightarrow> int \<Rightarrow> PuzzleState
     \<Rightarrow> js_error + (PuzzleState \<times> nat \<times> callback list)" where
  "checkMatches rnd k now cv s =
     (let newGrid = grid s
      in case horizontalMatches newGrid of
           Inl e \<Rightarrow> Inl e
         | Inr hs \<Rightarrow>
             (case verticalMatches newGrid of
                Inl e \<Rightarrow> Inl e
              | Inr vs \<Rightarrow>
                  let toRemove = hs @ vs;
                      matchesFound = (toRemove \<noteq> [])
                  in if matchesFound
                     then
                       let uniqueMatches = uniqueKeys [] toRemove;
                           points = int (length uniqueMatches) * cv;
                           newScore = score s + points;
                           (g', k') = replaceMatched rnd now uniqueMatches k newGrid
                       in Inr (s\<lparr>score := newScore, grid := g'\<rparr>, k', [onScoreChange newScore])
                     else Inr (s, k, [])))"








section \<open>Runner engine (RunnerEngine)\<close>

text \<open>
  The component's state hooks are the fields of one record, and a state updater is
  applied where the source calls it, once, in the order of the calls. The interval
  is \<open>gameLoop\<close>: it is the flag of \<open>gameLoopRef\<close> holding a timer, and a tick happens
  only while it does. \<open>Math.random\<close> is a stream read at a running index, and the width
  of the screen is a parameter. The field \<open>r_score\<close> is the hook \<open>score\<close>.
\<close>

definition PLAYER_SIZE :: real where
  "PLAYER_SIZE = 50"

definition LANE_HEIGHT :: real where
  "LANE_HEIGHT = 100"

definition NUM_LANES :: int where
  "NUM_LANES = 3"

datatype objectType = obstacle | coin

record GameObject =
  obj_id :: "objectType \<times> nat"
  obj_x :: real
  obj_y :: real
  obj_type :: objectType
  lane :: int

record RunnerState =
  playerLane :: int
  r_score :: int
  lives :: int
  distance :: int
  objects :: "GameObject list"
  gameLoop :: bool
  objectIdCounter :: nat

text \<open>What a tick threads through: the state, the next random index, the callbacks so far.\<close>

type_synonym runner = "RunnerState \<times> nat \<times> callback list"

definition initialRunner :: RunnerState where
  "initialRunner =
     \<lparr> playerLane = 1, r_score = 0, lives = 5, distance = 0, objects = [],
       gameLoop = True, objectIdCounter = 0 \<rparr>"

definition stopGameLoop :: "RunnerState \<Rightarrow> RunnerState" where
  "stopGameLoop s = s\<lparr>gameLoop := False\<rparr>"

definition updateDistance :: "Level \<Rightarrow> RunnerState \<Rightarrow> RunnerState \<times> callback list" where
  "updateDistance level s =
     (let newDistance = distance s + 1;
          targetDistance = targetScore level * 10;
          (s1, cb1) =
            (if newDistance mod 10 = 0
             then (let newScore = newDistance div 10
                   in (s\<lparr>r_score := newScore\<rparr>, [onScoreChange newScore]))
             else (s, []));
          (s2, cb2) =
            (if newDistance \<ge> targetDistance then (stopGameLoop s1, [onWin]) else (s1, []))
      in (s2\<lparr>distance := newDistance\<rparr>, cb1 @ cb2))"

definition spawn_object :: "objectType \<Rightarrow> real \<Rightarrow> real \<Rightarrow> RunnerState \<Rightarrow> RunnerState" where
  "spawn_object ty screenWidth r s =
     (let ln = \<lfloor>r * real_of_int NUM_LANES\<rfloor>;
          new = \<lparr> obj_id = (ty, objectIdCounter s), obj_x = screenWidth,
                  obj_y = real_of_int ln * LANE_HEIGHT, obj_type = ty, lane = ln \<rparr>
      in s\<lparr>objectIdCounter := objectIdCounter s + 1, objects := objects s @ [new]\<rparr>)"

definition spawnObstacle :: "real \<Rightarrow> real \<Rightarrow> RunnerState \<Rightarrow> RunnerState" where
  "spawnObstacle = spawn_object obstacle"

definition spawnCoin :: "real \<Rightarrow> real \<Rightarrow> RunnerState \<Rightarrow> RunnerState" where
  "spawnCoin = spawn_object coin"

definition handleObstacleCollision :: "RunnerState \<Rightarrow> RunnerState \<times> callback list" where
  "handleObstacleCollision s =
     (let newLives = max 0 (lives s - 1);
          (s1, cb) = (if newLives = 0 then (stopGameLoop s, [onLose]) else (s, []))
      in (s1\<lparr>lives := newLives\<rparr>, onLivesChange newLives # cb))"

definition handleCoinCollection :: "Level \<Rightarrow> RunnerState \<Rightarrow> RunnerState \<times> callback list" where
  "handleCoinCollection level s =
     (let newScore = r_score s + coinValue level
      in (s\<lparr>r_score := newScore\<rparr>, [onScoreChange newScore]))"

definition hitsPlayer :: "int \<Rightarrow> GameObject \<Rightarrow> bool" where
  "hitsPlayer pl obj = (obj_x obj < PLAYER_SIZE + 20 \<and> obj_x obj > - 20 \<and> lane obj = pl)"

text \<open>The \<open>forEach\<close> over the moved objects: each one at the player is handled in turn.\<close>

fun checkCollisions ::
  "Level \<Rightarrow> int \<Rightarrow> GameObject list \<Rightarrow> RunnerState \<times> callback list \<Rightarrow> RunnerState \<times> callback list"
  where
  "checkCollisions level pl [] acc = acc"
| "checkCollisions level pl (obj # objs) (s, cbs) =
     (if hitsPlayer pl obj
      then (let (s1, cb) = (case obj_type obj of
                              obstacle \<Rightarrow> handleObstacleCollision s
                            | coin \<Rightarrow> handleCoinCollection level s)
            in checkCollisions level pl objs (s1, cbs @ cb))
      else checkCollisions level pl objs (s, cbs))"

definition moveObjects :: "Level \<Rightarrow> RunnerState \<Rightarrow> RunnerState \<times> callback list" where
  "moveObjects level s =
     (let updated = filter (\<lambda>obj. obj_x obj > - 100)
                      (map (\<lambda>obj. obj\<lparr>obj_x := obj_x obj - 5\<rparr>) (objects s));
          (s1, cbs) = checkCollisions level (playerLane s) updated (s, [])
      in (s1\<lparr>objects := filter (\<lambda>obj. \<not> hitsPlayer (playerLane s) obj) updated\<rparr>, cbs))"

text \<open>One run of the interval's callback.\<close>

definition tick :: "(nat \<Rightarrow> real) \<Rightarrow> real \<Rightarrow> Level \<Rightarrow> runner \<Rightarrow> runner" where
  "tick rnd screenWidth level st =
     (case st of (s, k, cbs) \<Rightarrow>
        let (s1, cb1) = updateDistance level s;
            (s2, k2) = (if rnd k < real_of_int (obstacles level) * 0.0002
                        then (spawnObstacle screenWidth (rnd (k + 1)) s1, k + 2)
                        else (s1, k + 1));
            (s3, k3) = (if rnd k2 < 0.015
                        then (spawnCoin screenWidth (rnd (k2 + 1)) s2, k2 + 2)
                        else (s2, k2 + 1));
            (s4, cb4) = moveObjects level s3
        in (s4, k3, cbs @ cb1 @ cb4))"

text \<open>The interval fires \<open>n\<close> times, or until the loop is stopped.\<close>

fun ticks :: "(nat \<Rightarrow> real) \<Rightarrow> real \<Rightarrow> Level \<Rightarrow> nat \<Rightarrow> runner \<Rightarrow> runner" where
  "ticks rnd screenWidth level 0 st = st"
| "ticks rnd screenWidth level (Suc n) st =
     (if gameLoop (fst st) then ticks rnd screenWidth level n (tick rnd screenWidth level st)
      else st)"

text \<open>
  A run for the scenario of the claim: on a screen 375 wide, the second and third
  draws of the first tick spawn a coin in the player's lane, and nothing else is
  ever spawned.
\<close>

definition coinAtFirstTick :: "nat \<Rightarrow> real" where
  "coinAtFirstTick n = (if n = 1 then 1 / 100 else 1 / 2)"

section \<open>Input manager (InputManager)\<close>

text \<open>
  The manager's fields are \<open>config\<close>, \<open>touchState\<close> and \<open>listeners\<close>. Its environment
  is kept beside them: \<open>timers\<close> holds the timeouts that are pending (the handle of
  each, and the \<open>x\<close> and \<open>y\<close> its callback has captured), \<open>nextTimer\<close> is the handle
  the next \<open>setTimeout\<close> returns, and \<open>emitted\<close> records the calls of \<open>emit\<close> in order.
  \<open>Date.now()\<close> is the argument \<open>now\<close> of a handler. A callback is a number; a
  timer handle is an object, so always truthy. The delay of a timeout is not kept: a
  pending timeout may fire at any moment between two calls. A listener does not call
  back into the manager, so \<open>emit\<close> only records its event. Coordinates and times
  are real numbers.
\<close>

record InputConfig =
  doubleTapThreshold :: real
  longPressThreshold :: real
  swipeThreshold :: real
  swipeVelocityThreshold :: real
  dragThreshold :: real

definition DEFAULT_INPUT_CONFIG :: InputConfig where
  "DEFAULT_INPUT_CONFIG =
     \<lparr> doubleTapThreshold = 300, longPressThreshold = 500, swipeThreshold = 50,
       swipeVelocityThreshold = 0.3, dragThreshold = 10 \<rparr>"

datatype InputEventType =
  tap | double_tap | long_press | swipe_up | swipe_down | swipe_left | swipe_right
  | drag_start | drag_move | drag_end

record InputEvent =
  ev_type :: InputEventType
  ev_position :: Vector2D
  timestamp :: real
  deltaX :: "real option"
  deltaY :: "real option"
  duration :: "real option"

definition mkEvent ::
  "InputEventType \<Rightarrow> real \<Rightarrow> real \<Rightarrow> real \<Rightarrow> real option \<Rightarrow> real option \<Rightarrow> real option
     \<Rightarrow> InputEvent" where
  "mkEvent ty px py ts dx dy dur =
     \<lparr> ev_type = ty, ev_position = Vector2D_new px py, timestamp = ts,
       deltaX = dx, deltaY = dy, duration = dur \<rparr>"

record TouchState =
  startX :: real
  startY :: real
  currentX :: real
  currentY :: real
  startTime :: real
  lastTapTime :: real
  isDragging :: bool
  longPressTriggered :: bool
  longPressTimer :: "nat option"

record InputManager =
  config :: InputConfig
  touchState :: "TouchState option"
  listeners :: "InputEventType \<Rightarrow> nat list"
  timers :: "(nat \<times> real \<times> real) list"
  nextTimer :: nat
  emitted :: "InputEvent list"

definition InputManager_new :: "InputConfig \<Rightarrow> InputManager" where
  "InputManager_new cfg =
     \<lparr> config = cfg, touchState = None, listeners = (\<lambda>ty. []), timers = [],
       nextTimer = 0, emitted = [] \<rparr>"

definition on :: "InputEventType \<Rightarrow> nat \<Rightarrow> InputManager \<Rightarrow> InputManager" where
  "on eventType cb m =
     m\<lparr>listeners := (listeners m)
         (eventType := (if cb \<in> set (listeners m eventType) then listeners m eventType
                        else listeners m eventType @ [cb]))\<rparr>"

definition off :: "InputEventType \<Rightarrow> nat \<Rightarrow> InputManager \<Rightarrow> InputManager" where
  "off eventType cb m =
     m\<lparr>listeners := (listeners m)(eventType := removeAll cb (listeners m eventType))\<rparr>"

definition emit_event :: "InputEvent \<Rightarrow> InputManager \<Rightarrow> InputManager" where
  "emit_event ev m = m\<lparr>emitted := emitted m @ [ev]\<rparr>"

definition clearTimeout :: "nat \<Rightarrow> InputManager \<Rightarrow> InputManager" where
  "clearTimeout t m = m\<lparr>timers := filter (\<lambda>p. fst p \<noteq> t) (timers m)\<rparr>"

text \<open>\<open>if (timer) clearTimeout(timer)\<close> for the timer of a touch state.\<close>

definition clearLongPress :: "TouchState \<Rightarrow> InputManager \<Rightarrow> InputManager" where
  "clearLongPress ts m = (case longPressTimer ts of Some t \<Rightarrow> clearTimeout t m | None \<Rightarrow> m)"

definition handleTouchStart :: "real \<Rightarrow> real \<Rightarrow> real \<Rightarrow> InputManager \<Rightarrow> InputManager" where
  "handleTouchStart now x y m =
     (let m1 = (case touchState m of Some old \<Rightarrow> clearLongPress old m | None \<Rightarrow> m);
          ts = \<lparr> startX = x, startY = y, currentX = x, currentY = y, startTime = now,
                 lastTapTime = (case touchState m of Some old \<Rightarrow> lastTapTime old | None \<Rightarrow> 0),
                 isDragging = False, longPressTriggered = False, longPressTimer = None \<rparr>;
          t = nextTimer m1
      in m1\<lparr>touchState := Some (ts\<lparr>longPressTimer := Some t\<rparr>),
            timers := timers m1 @ [(t, x, y)],
            nextTimer := t + 1\<rparr>)"

text \<open>
  The long-press timeout \<open>t\<close> fires at time \<open>now\<close>: it is no longer pending, and its
  callback runs on the touch state the manager holds at that moment.
\<close>

definition timerFires :: "real \<Rightarrow> nat \<Rightarrow> InputManager \<Rightarrow> InputManager" where
  "timerFires now t m =
     (case find (\<lambda>p. fst p = t) (timers m) of
        None \<Rightarrow> m
      | Some (_, x, y) \<Rightarrow>
          let m1 = clearTimeout t m
          in (case touchState m1 of
                None \<Rightarrow> m1
              | Some ts \<Rightarrow>
                  if \<not> isDragging ts
                  then emit_event
                         (mkEvent long_press x y now None None (Some (now - startTime ts)))
                         (m1\<lparr>touchState := Some (ts\<lparr>longPressTriggered := True\<rparr>)\<rparr>)
                  else m1))"

definition handleTouchMove :: "real \<Rightarrow> real \<Rightarrow> real \<Rightarrow> InputManager \<Rightarrow> InputManager" where
  "handleTouchMove now x y m =
     (case touchState m of
        None \<Rightarrow> m
      | Some ts \<Rightarrow>
          let dX = x - currentX ts;
              dY = y - currentY ts;
              totalDeltaX = x - startX ts;
              totalDeltaY = y - startY ts;
              dst = sqrt (totalDeltaX * totalDeltaX + totalDeltaY * totalDeltaY);
              ts1 = ts\<lparr>currentX := x, currentY := y\<rparr>;
              (ts2, m1) =
                (if \<not> isDragging ts1 \<and> dst > dragThreshold (config m)
                 then (ts1\<lparr>isDragging := True, longPressTimer := None\<rparr>,
                       emit_event
                         (mkEvent drag_start x y now (Some totalDeltaX) (Some totalDeltaY) None)
                         (clearLongPress ts1 m))
                 else (ts1, m));
              m2 = (if isDragging ts2
                    then emit_event (mkEvent drag_move x y now (Some dX) (Some dY) None) m1
                    else m1)
          in m2\<lparr>touchState := Some ts2\<rparr>)"

definition detectSwipeDirection :: "real \<Rightarrow> real \<Rightarrow> InputEventType" where
  "detectSwipeDirection dX dY =
     (if \<bar>dX\<bar> > \<bar>dY\<bar> then (if dX > 0 then swipe_right else swipe_left)
      else (if dY > 0 then swipe_down else swipe_up))"

text \<open>
  \<open>distance / duration > threshold\<close> in JavaScript: over a zero duration the quotient
  is infinite for a positive distance, and not a number for a zero one.
\<close>

definition velocityExceeds :: "real \<Rightarrow> real \<Rightarrow> real \<Rightarrow> bool" where
  "velocityExceeds dst dur threshold =
     (if dur = 0 then dst > 0 else dst / dur > threshold)"

definition handleTouchEnd :: "real \<Rightarrow> real \<Rightarrow> real \<Rightarrow> InputManager \<Rightarrow> InputManager" where
  "handleTouchEnd now x y m =
     (case touchState m of
        None \<Rightarrow> m
      | Some ts \<Rightarrow>
          let dur = now - startTime ts;
              dX = x - startX ts;
              dY = y - startY ts;
              dst = sqrt (dX * dX + dY * dY);
              m1 = clearLongPress ts m;
              ts1 = ts\<lparr>longPressTimer := None\<rparr>;
              (ts2, m2) =
                (if isDragging ts1
                 then (ts1, emit_event (mkEvent drag_end x y now (Some dX) (Some dY) None) m1)
                 else if dst > swipeThreshold (config m) \<and> dur < 500
                 then (if velocityExceeds dst dur (swipeVelocityThreshold (config m))
                       then (ts1, emit_event
                               (mkEvent (detectSwipeDirection dX dY) x y now (Some dX) (Some dY) None)
                               m1)
                       else (ts1, m1))
                 else if \<not> longPressTriggered ts1 \<and> dst < dragThreshold (config m)
                 then (let timeSinceLastTap = now - lastTapTime ts1
                       in if timeSinceLastTap < doubleTapThreshold (config m)
                          then (ts1\<lparr>lastTapTime := 0\<rparr>,
                                emit_event (mkEvent double_tap x y now None None None) m1)
                          else (ts1\<lparr>lastTapTime := now\<rparr>,
                                emit_event (mkEvent tap x y now None None None) m1))
                 else (ts1, m1));
              m3 = m2\<lparr>touchState := Some ts2\<rparr>
          in m3\<lparr>touchState := None\<rparr>)"

definition clear :: "InputManager \<Rightarrow> InputManager" where
  "clear m =
     (let m1 = m\<lparr>listeners := (\<lambda>ty. [])\<rparr>;
          m2 = (case touchState m1 of Some ts \<Rightarrow> clearLongPress ts m1 | None \<Rightarrow> m1)
      in m2\<lparr>touchState := None\<rparr>)"

text \<open>What can happen to a manager: a call of one of its methods, or a timeout firing.\<close>

datatype im_call =
  On InputEventType nat
  | Off InputEventType nat
  | TouchStart real real real
  | TouchMove real real real
  | TouchEnd real real real
  | TimerFires real nat
  | Clear

fun im_step :: "InputManager \<Rightarrow> im_call \<Rightarrow> InputManager" where
  "im_step m (On ty cb) = on ty cb m"
| "im_step m (Off ty cb) = off ty cb m"
| "im_step m (TouchStart now x y) = handleTouchStart now x y m"
| "im_step m (TouchMove now x y) = handleTouchMove now x y m"
| "im_step m (TouchEnd now x y) = handleTouchEnd now x y m"
| "im_step m (TimerFires now t) = timerFires now t m"
| "im_step m Clear = clear m"

definition im_run :: "InputManager \<Rightarrow> im_call list \<Rightarrow> InputManager" where
  "im_run m calls = foldl im_step m calls"

text \<open>The time at which a call reads the clock, if it does.\<close>

fun call_time :: "im_call \<Rightarrow> real option" where
  "call_time (TouchStart now x y) = Some now"
| "call_time (TouchMove now x y) = Some now"
| "call_time (TouchEnd now x y) = Some now"
| "call_time (TimerFires now t) = Some now"
| "call_time c = None"




fun discards :: "im_call \<Rightarrow> bool" where
  "discards (TouchStart now x y) = True"
| "discards (TouchEnd now x y) = True"
| "discards Clear = True"
| "discards c = False"

text \<open>
  The invariant of the manager's timers: a pending timeout is the long-press timer of
  the touch state the manager holds, and that touch is not a drag; a timer handle
  held by the touch state was issued earlier than the next handle.
\<close>

definition timers_owned :: "InputManager \<Rightarrow> bool" where
  "timers_owned m =
     ((\<forall>p \<in> set (timers m).
          \<exists>ts. touchState m = Some ts \<and> longPressTimer ts = Some (fst p) \<and> \<not> isDragging ts)
      \<and> (\<forall>ts t. touchState m = Some ts \<and> longPressTimer ts = Some t \<longrightarrow> t < nextTimer m))"


section \<open>Theorems\<close>

subsection \<open>Level catalog\<close>

lemma playable_ids:
  "isLevelPlayable i \<longleftrightarrow> i \<in> {1, 2, 3}"
  by (simp add: isLevelPlayable_def getLevelById_def LEVELS_def mkLevel_def)

text \<open>
  C8. On the stock catalog of ten levels, \<open>getPlayableLevels\<close> returns the levels with
  ids 1, 2, 3 in that order; level 2 is locked while nothing is completed and unlocked
  once level 1 is; level 1 is unlocked whatever has been completed; a playable level
  with an id above 1 is unlocked exactly when the completed ids contain its
  predecessor; and there is no level after level 10.
\<close>

theorem levels_catalog_scenario:
  "length LEVELS = 10
   \<and> map level_id getPlayableLevels = [1, 2, 3]
   \<and> getPlayableLevels = take 3 LEVELS
   \<and> \<not> isLevelUnlocked 2 []
   \<and> isLevelUnlocked 2 [1]
   \<and> (\<forall>completed. isLevelUnlocked 1 completed)
   \<and> (\<forall>i completed. isLevelPlayable i \<and> i > 1 \<longrightarrow>
          (isLevelUnlocked i completed \<longleftrightarrow> (i - 1) \<in> set completed))
   \<and> getNextLevel 10 = None"
proof (intro conjI allI impI)
  show "length LEVELS = 10"
    by (simp add: LEVELS_def)
  show "map level_id getPlayableLevels = [1, 2, 3]"
    by (simp add: getPlayableLevels_def LEVELS_def mkLevel_def)
  show "getPlayableLevels = take 3 LEVELS"
    by (simp add: getPlayableLevels_def LEVELS_def mkLevel_def)
  show "\<not> isLevelUnlocked 2 []"
    by (simp add: isLevelUnlocked_def getLevelById_def LEVELS_def mkLevel_def)
  show "isLevelUnlocked 2 [1]"
    by (simp add: isLevelUnlocked_def getLevelById_def LEVELS_def mkLevel_def)
  show "isLevelUnlocked 1 completed" for completed
    by (simp add: isLevelUnlocked_def getLevelById_def LEVELS_def mkLevel_def)
  show "isLevelUnlocked i completed \<longleftrightarrow> (i - 1) \<in> set completed"
    if "isLevelPlayable i \<and> i > 1" for i completed
  proof -
    from that have "i = 2 \<or> i = 3"
      by (auto simp: playable_ids)
    then show ?thesis
      by (auto simp: isLevelUnlocked_def getLevelById_def LEVELS_def mkLevel_def)
  qed
  show "getNextLevel 10 = None"
    by (simp add: getNextLevel_def LEVELS_def mkLevel_def)
qed

theorem levels_catalog_scenario_witness:
  "isLevelPlayable 3 \<and> (3::int) > 1
   \<and> (isLevelUnlocked 3 [1, 2] \<longleftrightarrow> (3 - 1) \<in> set [1, 2::int])
   \<and> isLevelUnlocked 3 [1, 2]
   \<and> \<not> isLevelUnlocked 3 [1]"
proof -
  have p: "isLevelPlayable 3 \<and> (3::int) > 1"
    by (simp add: playable_ids)
  have u: "\<forall>i completed. isLevelPlayable i \<and> i > 1 \<longrightarrow>
          (isLevelUnlocked i completed \<longleftrightarrow> (i - 1) \<in> set completed)"
    using levels_catalog_scenario by (elim conjE)
  have u1: "isLevelUnlocked 3 [1, 2] \<longleftrightarrow> (3 - 1) \<in> set [1, 2::int]"
    using u p by (elim allE impE) 
  have u2: "isLevelUnlocked 3 [1] \<longleftrightarrow> (3 - 1) \<in> set [1::int]"
    using u p by (elim allE impE)
  show ?thesis
    using p u1 u2 by simp
qed

subsection \<open>Card engine\<close>

text \<open>
  C10. In the round resolution of the card engine, a tie between two scores that are
  both at most 20 goes to the opponent; the player is awarded the round only with a
  strictly greater score that is not a bust, or when the opponent busts over 20 (and
  the player has not); the state then counts the round for the side that won it.
\<close>

theorem determineWinner_tie_to_opponent:
  "(pScore \<le> 20 \<and> oScore \<le> 20 \<and> pScore = oScore \<longrightarrow> roundWinner pScore oScore = Opponent)
   \<and> (roundWinner pScore oScore = Player \<longleftrightarrow>
        pScore \<le> 20 \<and> (oScore > 20 \<or> pScore > oScore))
   \<and> (roundWinner pScore oScore = Player \<longrightarrow>
        (pScore \<le> 20 \<and> pScore > oScore) \<or> oScore > 20)
   \<and> determineWinner s pScore oScore =
        (if roundWinner pScore oScore = Player
         then s\<lparr>phase := result, wins := wins s + 1\<rparr>
         else s\<lparr>phase := result, losses := losses s + 1\<rparr>)"
  by (auto simp: roundWinner_def determineWinner_def TARGET_def Let_def)

theorem determineWinner_tie_to_opponent_witness:
  "(18::int) \<le> 20 \<and> roundWinner 18 18 = Opponent
   \<and> roundWinner 18 23 = Player \<and> roundWinner 19 18 = Player"
proof -
  have a: "roundWinner 18 18 = Opponent"
    using determineWinner_tie_to_opponent [of 18 18] by simp
  have b: "roundWinner 18 23 = Player"
    using determineWinner_tie_to_opponent [of 18 23] by simp
  have c: "roundWinner 19 18 = Player"
    using determineWinner_tie_to_opponent [of 19 18] by simp
  from a b c show ?thesis by simp
qed

subsection \<open>Vectors and physics bodies\<close>

lemmas vec_defs = Vector2D_new_def add_def subtract_def multiply_def divide_v_def

lemma applyForce_fields:
  "mass (applyForce b f) = mass b" "friction (applyForce b f) = friction b"
  "velocity (applyForce b f) = velocity b" "position (applyForce b f) = position b"
  "restitution (applyForce b f) = restitution b"
  by (simp_all add: applyForce_def Let_def)

lemma foldl_applyForce_fields:
  "mass (foldl applyForce b fs) = mass b \<and> friction (foldl applyForce b fs) = friction b
   \<and> velocity (foldl applyForce b fs) = velocity b \<and> position (foldl applyForce b fs) = position b"
  by (induction fs arbitrary: b) (simp_all add: applyForce_fields)

lemma foldl_applyForce_acc:
  "mass b \<noteq> 0 \<Longrightarrow>
   acceleration (foldl applyForce b fs) =
     Vector2D_new (vec_x (acceleration b) + (\<Sum>f\<leftarrow>fs. vec_x f / mass b))
                  (vec_y (acceleration b) + (\<Sum>f\<leftarrow>fs. vec_y f / mass b))"
proof (induction fs arbitrary: b)
  case Nil
  then show ?case by (simp add: Vector2D_new_def)
next
  case (Cons f fs)
  have m: "mass (applyForce b f) = mass b" by (simp add: applyForce_fields)
  show ?case
    using Cons.IH [of "applyForce b f"] Cons.prems
    by (simp add: m) (simp add: applyForce_def vec_defs Let_def add.assoc)
qed

text \<open>
  C3. Numbers are real numbers here. For every body and every \<open>dt\<close>, after any list
  of \<open>applyForce\<close> calls, \<open>update\<close> leaves the velocity at
  (old velocity + old acceleration * dt) * (1 - friction), the position at
  old position + new velocity * dt, and the acceleration at exactly (0, 0), where
  "old" is the body just before \<open>update\<close>. The \<open>applyForce\<close> calls had added
  force / mass to the acceleration, one after the other (for a mass other than zero;
  with mass zero the guarded division adds (0, 0)).
\<close>

theorem PhysicsBody_update_integrates:
  "let b = foldl applyForce b0 forces; b' = update b dt in
     vec_x (velocity b') = (vec_x (velocity b) + vec_x (acceleration b) * dt) * (1 - friction b)
   \<and> vec_y (velocity b') = (vec_y (velocity b) + vec_y (acceleration b) * dt) * (1 - friction b)
   \<and> vec_x (position b') = vec_x (position b) + vec_x (velocity b') * dt
   \<and> vec_y (position b') = vec_y (position b) + vec_y (velocity b') * dt
   \<and> acceleration b' = \<lparr> vec_x = 0, vec_y = 0 \<rparr>
   \<and> (mass b0 \<noteq> 0 \<longrightarrow>
        vec_x (acceleration b) = vec_x (acceleration b0) + (\<Sum>f\<leftarrow>forces. vec_x f / mass b0)
      \<and> vec_y (acceleration b) = vec_y (acceleration b0) + (\<Sum>f\<leftarrow>forces. vec_y f / mass b0))"
  by (simp add: Let_def foldl_applyForce_acc) (simp add: update_def vec_defs Let_def)

theorem PhysicsBody_update_integrates_witness:
  "mass (PhysicsBody_new 0 0) \<noteq> 0
   \<and> velocity (update (foldl applyForce (PhysicsBody_new 0 0)
        [\<lparr> vec_x = 2, vec_y = 0 \<rparr>, \<lparr> vec_x = 0, vec_y = 10 \<rparr>]) 1) = \<lparr> vec_x = 9 / 5, vec_y = 9 \<rparr>
   \<and> acceleration (foldl applyForce (PhysicsBody_new 0 0)
        [\<lparr> vec_x = 2, vec_y = 0 \<rparr>, \<lparr> vec_x = 0, vec_y = 10 \<rparr>]) = \<lparr> vec_x = 2, vec_y = 10 \<rparr>"
proof -
  have m: "mass (PhysicsBody_new 0 0) \<noteq> 0"
    by (simp add: PhysicsBody_new_def)
  have e: "foldl applyForce (PhysicsBody_new 0 0)
        [\<lparr> vec_x = 2, vec_y = 0 \<rparr>, \<lparr> vec_x = 0, vec_y = 10 \<rparr>]
       = (PhysicsBody_new 0 0)\<lparr>acceleration := \<lparr> vec_x = 2, vec_y = 10 \<rparr>\<rparr>"
    by (simp add: PhysicsBody_new_def applyForce_def vec_defs Let_def)
  show ?thesis
    using m PhysicsBody_update_integrates [of "PhysicsBody_new 0 0"
        "[\<lparr> vec_x = 2, vec_y = 0 \<rparr>, \<lparr> vec_x = 0, vec_y = 10 \<rparr>]" 1]
    unfolding e Let_def
    by (simp add: PhysicsBody_new_def update_def vec_defs)
qed

subsection \<open>Double-precision vectors\<close>

lemma roundHalfEven_error: "\<bar>of_int (roundHalfEven t) - t\<bar> \<le> 1 / 2"
proof -
  have "of_int \<lfloor>t\<rfloor> \<le> t" "t < of_int \<lfloor>t\<rfloor> + 1" by linarith+
  then show ?thesis
    by (auto simp: roundHalfEven_def Let_def)
qed

lemma roundHalfEven_nonneg: "0 \<le> t \<Longrightarrow> 0 \<le> roundHalfEven t"
  by (auto simp: roundHalfEven_def Let_def)

lemma quantum_pos: "0 < quantum t"
  by (simp add: quantum_def)

lemma roundDouble_error_quantum: "\<bar>roundDouble t - t\<bar> \<le> quantum t / 2"
proof (cases "t = 0")
  case True
  then show ?thesis using quantum_pos [of t] by (simp add: roundDouble_def)
next
  case False
  define q where "q = quantum t"
  have q: "0 < q" unfolding q_def by (rule quantum_pos)
  have "roundDouble t - t = q * (of_int (roundHalfEven (t / q)) - t / q)"
    using False q by (simp add: roundDouble_def q_def algebra_simps)
  then have "\<bar>roundDouble t - t\<bar> = q * \<bar>of_int (roundHalfEven (t / q)) - t / q\<bar>"
    using q by (simp add: abs_mult)
  also have "\<dots> \<le> q * (1 / 2)"
    using q roundHalfEven_error [of "t / q"] by (intro mult_left_mono) simp_all
  finally show ?thesis by (simp add: q_def)
qed

lemma roundDouble_nonneg: "0 \<le> t \<Longrightarrow> 0 \<le> roundDouble t"
  using quantum_pos [of t] roundHalfEven_nonneg [of "t / quantum t"]
  by (simp add: roundDouble_def)


lemma quantum_bound: "t \<noteq> 0 \<Longrightarrow> quantum t / 2 \<le> unitRoundoff * \<bar>t\<bar> + halfSubnormal"
proof -
  assume t: "t \<noteq> 0"
  define e where "e = \<lfloor>log 2 \<bar>t\<bar>\<rfloor>"
  show ?thesis
  proof (cases "- 1022 \<le> e")
    case True
    have "of_int e \<le> log 2 \<bar>t\<bar>" unfolding e_def by (rule of_int_floor_le)
    then have "2 powr (of_int e) \<le> 2 powr (log 2 \<bar>t\<bar>)" by (simp add: powr_le_cancel_iff)
    also have "\<dots> = \<bar>t\<bar>" using t by simp
    finally have le: "2 powr (of_int e) \<le> \<bar>t\<bar>" .
    have "quantum t = 2 powr (of_int e - 52)"
      using True by (simp add: quantum_def e_def [symmetric] max_def)
    also have "\<dots> = 2 powr (of_int e) / 2 ^ 52"
      by (simp add: powr_diff)
    finally have "quantum t / 2 = 2 powr (of_int e) / 2 ^ 53" by simp
    also have "\<dots> \<le> \<bar>t\<bar> / 2 ^ 53" using le by (simp add: divide_right_mono)
    finally show ?thesis by (simp add: unitRoundoff_def halfSubnormal_def)
  next
    case False
    then have "quantum t = 2 powr (- 1074)"
      by (simp add: quantum_def e_def [symmetric] max_def)
    also have "\<dots> = 1 / 2 ^ 1074"
      by (simp add: powr_minus_divide)
    finally have "quantum t / 2 = halfSubnormal" by (simp add: halfSubnormal_def)
    then show ?thesis by (simp add: unitRoundoff_def)
  qed
qed

lemma roundDouble_error: "\<bar>roundDouble t - t\<bar> \<le> unitRoundoff * \<bar>t\<bar> + halfSubnormal"
proof (cases "t = 0")
  case True
  then show ?thesis by (simp add: roundDouble_def halfSubnormal_def)
next
  case False
  show ?thesis
    using roundDouble_error_quantum [of t] quantum_bound [OF False] by linarith
qed

lemma fl_finite: "\<bar>t\<bar> < overflowThreshold \<Longrightarrow> fl t = Finite (roundDouble t)"
  by (simp add: fl_def)

lemma unitRoundoff_small: "0 < unitRoundoff" "unitRoundoff \<le> 1 / 1000"
  by (simp_all add: unitRoundoff_def)

lemma halfSubnormal_eq: "halfSubnormal = unitRoundoff * (1 / 2 ^ 1022)"
proof -
  have "(2::real) ^ 1075 = 2 ^ 53 * 2 ^ 1022"
    by (simp only: power_add [symmetric]) simp
  then show ?thesis by (simp add: halfSubnormal_def unitRoundoff_def)
qed

lemma halfSubnormal_le: "0 < halfSubnormal" "halfSubnormal \<le> unitRoundoff"
proof -
  show "0 < halfSubnormal" by (simp add: halfSubnormal_def)
  have "(1::real) / 2 ^ 1022 \<le> 1" by simp
  then have "unitRoundoff * (1 / 2 ^ 1022) \<le> unitRoundoff * 1"
    using unitRoundoff_small(1) by (intro mult_left_mono) simp_all
  then show "halfSubnormal \<le> unitRoundoff" by (simp add: halfSubnormal_eq)
qed

lemma roundDouble_error_small:
  assumes "\<bar>t\<bar> \<le> 4"
  shows "\<bar>roundDouble t - t\<bar> \<le> 5 * unitRoundoff"
proof -
  have "unitRoundoff * \<bar>t\<bar> \<le> unitRoundoff * 4"
    using assms unitRoundoff_small(1) by (intro mult_left_mono) simp_all
  then show ?thesis
    using roundDouble_error [of t] halfSubnormal_le(2) by linarith
qed

lemma overflowThreshold_large: "4 < overflowThreshold"
proof -
  have "(2::real) ^ 1024 = 2 ^ 970 * 2 ^ 54"
    by (simp only: power_add [symmetric]) simp
  then have "overflowThreshold = 2 ^ 970 * (2 ^ 54 - 1)"
    by (simp add: overflowThreshold_def algebra_simps)
  moreover have "(1::real) \<le> 2 ^ 970" by (rule one_le_power) simp
  moreover have "(4::real) < 1 * (2 ^ 54 - 1)" by simp
  moreover have "(1::real) * (2 ^ 54 - 1) \<le> 2 ^ 970 * (2 ^ 54 - 1)"
    using \<open>(1::real) \<le> 2 ^ 970\<close> by (intro mult_right_mono) simp_all
  ultimately show ?thesis by linarith
qed

lemma sqrt_rel:
  assumes s: "0 < s" and c: "0 \<le> c" and e: "\<bar>c - s\<bar> \<le> \<epsilon> * s"
  shows "\<bar>sqrt c - sqrt s\<bar> \<le> \<epsilon> * sqrt s"
proof -
  have e0: "0 \<le> \<epsilon>"
  proof (rule ccontr)
    assume "\<not> 0 \<le> \<epsilon>"
    then have "\<epsilon> * s < 0" using s by (simp add: mult_neg_pos)
    then show False using e by linarith
  qed
  define d where "d = sqrt c + sqrt s"
  have d: "0 < d" "sqrt s \<le> d" using s c by (simp_all add: d_def add_nonneg_pos)
  have "(sqrt c - sqrt s) * d = c - s"
    using s c by (simp add: d_def algebra_simps)
  then have "\<bar>sqrt c - sqrt s\<bar> * d = \<bar>c - s\<bar>"
    using d(1) by (metis abs_mult abs_of_pos)
  also have "\<dots> \<le> \<epsilon> * s" by (rule e)
  also have "\<dots> = (\<epsilon> * sqrt s) * sqrt s" using s by simp
  also have "\<dots> \<le> (\<epsilon> * sqrt s) * d"
    using d(2) e0 s by (intro mult_left_mono) simp_all
  finally show ?thesis using d(1) by simp
qed

text \<open>One component of the normalized vector, and its rounded square.\<close>

lemma component_error:
  fixes x m \<sigma> :: real
  assumes s: "0 < \<sigma>" and m: "\<bar>m - \<sigma>\<bar> \<le> 9 * unitRoundoff * \<sigma>" and x: "\<bar>x\<bar> \<le> \<sigma>"
  defines "p \<equiv> roundDouble (x / m)"
  defines "A \<equiv> roundDouble (p * p)"
  shows "0 < m" "\<bar>x / m\<bar> \<le> 4" "\<bar>p * p\<bar> \<le> 4" "0 \<le> A"
    "\<bar>A - (x / \<sigma>) * (x / \<sigma>)\<bar> \<le> 74 * unitRoundoff"
proof -
  define u where "u = unitRoundoff"
  define \<xi> where "\<xi> = x / \<sigma>"
  have u: "0 < u" "u \<le> 1 / 1000" unfolding u_def by (rule unitRoundoff_small)+
  have us: "0 \<le> u * \<sigma>" using u s by simp
  have "u * \<sigma> \<le> (1 / 1000) * \<sigma>" using u(2) s by (intro mult_right_mono) simp_all
  then have half: "\<sigma> \<le> 2 * m" and mpos: "0 < m"
    using m s unfolding u_def [symmetric] by linarith+
  show "0 < m" by (rule mpos)
  have xi: "\<bar>\<xi>\<bar> \<le> 1" using x s by (simp add: \<xi>_def)
  have xs: "x = \<xi> * \<sigma>" using s by (simp add: \<xi>_def)
  have "x - \<xi> * m = \<xi> * (\<sigma> - m)" by (simp add: xs algebra_simps)
  then have "\<bar>x - \<xi> * m\<bar> = \<bar>\<xi>\<bar> * \<bar>\<sigma> - m\<bar>" by (simp add: abs_mult)
  also have "\<dots> \<le> 1 * (9 * u * \<sigma>)"
    using xi m unfolding u_def [symmetric] by (intro mult_mono) simp_all
  also have "\<dots> \<le> 18 * u * m"
  proof -
    have "u * \<sigma> \<le> u * (2 * m)" using half u(1) by (intro mult_left_mono) simp_all
    then show ?thesis by (simp add: algebra_simps)
  qed
  finally have num: "\<bar>x - \<xi> * m\<bar> \<le> 18 * u * m" .
  have "x / m - \<xi> = (x - \<xi> * m) / m" using mpos by (simp add: field_simps)
  then have "\<bar>x / m - \<xi>\<bar> = \<bar>x - \<xi> * m\<bar> / m" using mpos by (simp add: abs_divide)
  also have "\<dots> \<le> (18 * u * m) / m" using num mpos by (intro divide_right_mono) simp_all
  also have "\<dots> = 18 * u" using mpos by simp
  finally have q: "\<bar>x / m - \<xi>\<bar> \<le> 18 * u" .
  then show xm4: "\<bar>x / m\<bar> \<le> 4" using xi u by linarith
  have "\<bar>p - x / m\<bar> \<le> 5 * u"
    unfolding p_def u_def using xm4 by (rule roundDouble_error_small)
  then have pe: "\<bar>p - \<xi>\<bar> \<le> 23 * u" using q by linarith
  then have pb: "\<bar>p + \<xi>\<bar> \<le> 3" using xi u by linarith
  have "p * p - \<xi> * \<xi> = (p - \<xi>) * (p + \<xi>)" by (simp add: algebra_simps)
  then have "\<bar>p * p - \<xi> * \<xi>\<bar> = \<bar>p - \<xi>\<bar> * \<bar>p + \<xi>\<bar>" by (simp add: abs_mult)
  also have "\<dots> \<le> (23 * u) * 3"
    using pe pb u(1) by (intro mult_mono) simp_all
  finally have sq: "\<bar>p * p - \<xi> * \<xi>\<bar> \<le> 69 * u" by simp
  have xi2: "\<xi> * \<xi> \<le> 1"
  proof -
    have "\<bar>\<xi>\<bar> * \<bar>\<xi>\<bar> \<le> 1 * 1" using xi by (intro mult_mono) simp_all
    then show ?thesis by (simp add: abs_mult_self_eq)
  qed
  have pp0: "0 \<le> p * p" by simp
  show pp4: "\<bar>p * p\<bar> \<le> 4" using sq xi2 u pp0 by linarith
  show "0 \<le> A" unfolding A_def using pp0 by (rule roundDouble_nonneg)
  have "\<bar>A - p * p\<bar> \<le> 5 * u"
    unfolding A_def u_def using pp4 by (rule roundDouble_error_small)
  then have "\<bar>A - \<xi> * \<xi>\<bar> \<le> 74 * u"
    using sq by linarith
  then show "\<bar>A - (x / \<sigma>) * (x / \<sigma>)\<bar> \<le> 74 * unitRoundoff"
    unfolding \<xi>_def u_def .
qed

lemma unit_tail:
  fixes x y m \<sigma> :: real
  assumes sg: "\<sigma> = sqrt (x * x + y * y)" "0 < \<sigma>"
    and m: "\<bar>m - \<sigma>\<bar> \<le> 9 * unitRoundoff * \<sigma>"
  defines "A \<equiv> roundDouble (roundDouble (x / m) * roundDouble (x / m))"
  defines "B \<equiv> roundDouble (roundDouble (y / m) * roundDouble (y / m))"
  defines "C \<equiv> roundDouble (A + B)"
  shows "\<bar>A + B\<bar> \<le> 4" "0 \<le> C" "\<bar>sqrt C\<bar> \<le> 4" "\<bar>roundDouble (sqrt C) - 1\<bar> \<le> 1 / 2 ^ 45"
    "0 < m" "\<bar>x / m\<bar> \<le> 4" "\<bar>y / m\<bar> \<le> 4"
    "\<bar>roundDouble (x / m) * roundDouble (x / m)\<bar> \<le> 4"
    "\<bar>roundDouble (y / m) * roundDouble (y / m)\<bar> \<le> 4"
proof -
  define u where "u = unitRoundoff"
  have u: "0 < u" "u \<le> 1 / 1000" unfolding u_def by (rule unitRoundoff_small)+
  define s where "s = x * x + y * y"
  have s: "0 < s" "\<sigma> * \<sigma> = s"
  proof -
    have "0 \<le> s" by (simp add: s_def)
    moreover have "sqrt s = \<sigma>" by (simp add: sg s_def)
    ultimately show "\<sigma> * \<sigma> = s" by (metis real_sqrt_mult_self abs_of_nonneg)
    then show "0 < s" using sg(2) by (metis mult_pos_pos)
  qed
  have x: "\<bar>x\<bar> \<le> \<sigma>"
  proof -
    have "x * x \<le> s" by (simp add: s_def)
    then have "sqrt (x * x) \<le> sqrt s" by (rule real_sqrt_le_mono)
    then show ?thesis by (simp add: sg s_def)
  qed
  have y: "\<bar>y\<bar> \<le> \<sigma>"
  proof -
    have "y * y \<le> s" by (simp add: s_def)
    then have "sqrt (y * y) \<le> sqrt s" by (rule real_sqrt_le_mono)
    then show ?thesis by (simp add: sg s_def)
  qed
  have one: "(x / \<sigma>) * (x / \<sigma>) + (y / \<sigma>) * (y / \<sigma>) = 1"
  proof -
    have "(x / \<sigma>) * (x / \<sigma>) + (y / \<sigma>) * (y / \<sigma>) = (x * x + y * y) / (\<sigma> * \<sigma>)"
      by (simp add: add_divide_distrib)
    also have "\<dots> = 1" unfolding s_def [symmetric] s(2) using s(1) by simp
    finally show ?thesis .
  qed
  show "0 < m" "\<bar>x / m\<bar> \<le> 4" "\<bar>roundDouble (x / m) * roundDouble (x / m)\<bar> \<le> 4"
    using component_error [OF sg(2) m x] by simp_all
  show "\<bar>y / m\<bar> \<le> 4" "\<bar>roundDouble (y / m) * roundDouble (y / m)\<bar> \<le> 4"
    using component_error [OF sg(2) m y] by simp_all
  have A: "0 \<le> A" "\<bar>A - (x / \<sigma>) * (x / \<sigma>)\<bar> \<le> 74 * u"
    unfolding A_def u_def using component_error [OF sg(2) m x] by simp_all
  have B: "0 \<le> B" "\<bar>B - (y / \<sigma>) * (y / \<sigma>)\<bar> \<le> 74 * u"
    unfolding B_def u_def using component_error [OF sg(2) m y] by simp_all
  define \<xi> \<zeta> where "\<xi> = (x / \<sigma>) * (x / \<sigma>)" and "\<zeta> = (y / \<sigma>) * (y / \<sigma>)"
  have AB: "\<bar>A + B - 1\<bar> \<le> 148 * u"
    using A(2) B(2) one unfolding \<xi>_def [symmetric] \<zeta>_def [symmetric] by linarith
  then show AB4: "\<bar>A + B\<bar> \<le> 4" using u by linarith
  show C0: "0 \<le> C" unfolding C_def using A(1) B(1) by (intro roundDouble_nonneg) simp
  have "\<bar>C - (A + B)\<bar> \<le> 5 * u"
    unfolding C_def u_def using AB4 by (rule roundDouble_error_small)
  then have C1: "\<bar>C - 1\<bar> \<le> (153 * u) * 1" using AB by linarith
  have "\<bar>sqrt C - sqrt 1\<bar> \<le> (153 * u) * sqrt 1"
    using _ C0 C1 by (rule sqrt_rel) simp
  then have sq: "\<bar>sqrt C - 1\<bar> \<le> 153 * u" by simp
  then show sq4: "\<bar>sqrt C\<bar> \<le> 4" using u by linarith
  have "\<bar>roundDouble (sqrt C) - sqrt C\<bar> \<le> 5 * u"
    unfolding u_def using sq4 by (rule roundDouble_error_small)
  then have "\<bar>roundDouble (sqrt C) - 1\<bar> \<le> 158 * u" using sq by linarith
  moreover have "158 * u \<le> 1 / 2 ^ 45" by (simp add: u_def unitRoundoff_def)
  ultimately show "\<bar>roundDouble (sqrt C) - 1\<bar> \<le> 1 / 2 ^ 45" by linarith
qed

lemma overflowThreshold_eq: "overflowThreshold = 2 ^ 1022 * (4 - 1 / 2 ^ 52)"
proof -
  have "(2::real) ^ 1024 = 2 ^ 1022 * 4" "(2::real) ^ 1022 = 2 ^ 970 * 2 ^ 52"
    by (simp_all only: power_add [symmetric]) simp_all
  then show ?thesis by (simp add: overflowThreshold_def algebra_simps)
qed

lemma sqrt_le_Suc: "0 \<le> c \<Longrightarrow> sqrt c \<le> 1 + c"
proof -
  assume c: "0 \<le> c"
  have "c \<le> (1 + c)\<^sup>2" using c by (simp add: power2_eq_square algebra_simps)
  then show ?thesis using c by (intro real_le_lsqrt) simp_all
qed

text \<open>The length of a vector whose larger component is in range.\<close>

lemma magnitude_head:
  fixes x y :: real
  assumes lo: "1 / 2 ^ 511 \<le> max \<bar>x\<bar> \<bar>y\<bar>" and hi: "max \<bar>x\<bar> \<bar>y\<bar> \<le> 2 ^ 511"
  defines "\<sigma> \<equiv> sqrt (x * x + y * y)"
  defines "c \<equiv> roundDouble (roundDouble (x * x) + roundDouble (y * y))"
  shows "\<bar>x * x\<bar> < overflowThreshold" "\<bar>y * y\<bar> < overflowThreshold"
    "\<bar>roundDouble (x * x) + roundDouble (y * y)\<bar> < overflowThreshold"
    "0 \<le> c" "\<bar>sqrt c\<bar> < overflowThreshold" "0 < \<sigma>"
    "\<bar>roundDouble (sqrt c) - \<sigma>\<bar> \<le> 9 * unitRoundoff * \<sigma>"
proof -
  define u where "u = unitRoundoff"
  define \<eta> where "\<eta> = halfSubnormal"
  define K :: real where "K = 2 ^ 1022"
  define M where "M = max \<bar>x\<bar> \<bar>y\<bar>"
  define s where "s = x * x + y * y"
  define a where "a = roundDouble (x * x)"
  define b where "b = roundDouble (y * y)"
  have u: "0 < u" "u \<le> 1 / 1000" unfolding u_def by (rule unitRoundoff_small)+
  have K: "2 \<le> K"
  proof -
    have "(2::real) ^ 1 \<le> 2 ^ 1022" by (rule power_increasing) simp_all
    then show ?thesis by (simp add: K_def)
  qed
  have KK: "(2::real) ^ 511 * 2 ^ 511 = K"
    unfolding K_def by (simp only: power_add [symmetric]) simp
  have eta: "\<eta> = u * (1 / K)" unfolding \<eta>_def u_def K_def by (rule halfSubnormal_eq)
  have thr: "overflowThreshold = K * (4 - 1 / 2 ^ 52)"
    unfolding K_def by (rule overflowThreshold_eq)
  have M0: "0 \<le> M" unfolding M_def by simp
  have Mlo: "1 / 2 ^ 511 \<le> M" and Mhi: "M \<le> 2 ^ 511" using lo hi by (simp_all add: M_def)
  have MM_hi: "M * M \<le> K"
    using Mhi M0 unfolding KK [symmetric] by (intro mult_mono) simp_all
  have MM_lo: "1 / K \<le> M * M"
  proof -
    have "(1 / 2 ^ 511) * (1 / 2 ^ 511) \<le> M * M"
      using Mlo by (intro mult_mono) simp_all
    then show ?thesis by (simp add: KK [symmetric])
  qed
  have xx: "x * x \<le> M * M"
  proof -
    have "\<bar>x\<bar> * \<bar>x\<bar> \<le> M * M" unfolding M_def by (intro mult_mono) simp_all
    then show ?thesis by (simp add: abs_mult_self_eq)
  qed
  have yy: "y * y \<le> M * M"
  proof -
    have "\<bar>y\<bar> * \<bar>y\<bar> \<le> M * M" unfolding M_def by (intro mult_mono) simp_all
    then show ?thesis by (simp add: abs_mult_self_eq)
  qed
  have MMs: "M * M \<le> s"
  proof (cases "\<bar>x\<bar> \<le> \<bar>y\<bar>")
    case True
    then have "M * M = y * y" by (simp add: M_def max_def abs_mult_self_eq)
    then show ?thesis by (simp add: s_def)
  next
    case False
    then have "M * M = x * x" by (simp add: M_def max_def abs_mult_self_eq)
    then show ?thesis by (simp add: s_def)
  qed
  have s_lo: "1 / K \<le> s" using MM_lo MMs by linarith
  have s_hi: "s \<le> 2 * K" using xx yy MM_hi by (simp add: s_def)
  have K1: "0 < 1 / K" using K by simp
  have s0: "0 < s" using s_lo K1 by linarith
  have thr1: "K < overflowThreshold" and thr3: "1 + 3 * K < overflowThreshold"
  proof -
    have "K * (1 / 2 ^ 52) \<le> K * (1 / 2)" using K by (intro mult_left_mono) simp_all
    then show "K < overflowThreshold" "1 + 3 * K < overflowThreshold"
      using K by (simp_all add: thr algebra_simps)
  qed
  have xx0: "0 \<le> x * x" and yy0: "0 \<le> y * y" by simp_all
  show "\<bar>x * x\<bar> < overflowThreshold" using xx xx0 MM_hi thr1 by linarith
  show "\<bar>y * y\<bar> < overflowThreshold" using yy yy0 MM_hi thr1 by linarith
  have U0: "0 \<le> u * s" using u s0 by simp
  have uU: "u * (u * s) \<le> (u * s) / 1000"
  proof -
    have "u * (u * s) \<le> (1 / 1000) * (u * s)" using u(2) U0 by (intro mult_right_mono) simp_all
    then show ?thesis by simp
  qed
  have eta_s: "\<eta> \<le> u * s"
    unfolding eta using s_lo u(1) by (intro mult_left_mono) simp_all
  have ea: "\<bar>a - x * x\<bar> \<le> u * (x * x) + \<eta>"
    using roundDouble_error [of "x * x"] xx0 by (simp add: a_def u_def \<eta>_def)
  have eb: "\<bar>b - y * y\<bar> \<le> u * (y * y) + \<eta>"
    using roundDouble_error [of "y * y"] yy0 by (simp add: b_def u_def \<eta>_def)
  have us: "u * s = u * (x * x) + u * (y * y)" by (simp add: s_def algebra_simps)
  have eab: "\<bar>a + b - s\<bar> \<le> 3 * (u * s)"
  proof -
    have "\<bar>a + b - s\<bar> \<le> \<bar>a - x * x\<bar> + \<bar>b - y * y\<bar>" by (simp add: s_def)
    then show ?thesis using ea eb eta_s us by linarith
  qed
  have a0: "0 \<le> a" unfolding a_def using xx0 by (rule roundDouble_nonneg)
  have b0: "0 \<le> b" unfolding b_def using yy0 by (rule roundDouble_nonneg)
  have ab0: "0 \<le> a + b" using a0 b0 by simp
  have us_hi: "u * s \<le> K / 500"
  proof -
    have "u * s \<le> (1 / 1000) * (2 * K)" using u s_hi s0 by (intro mult_mono) simp_all
    then show ?thesis by simp
  qed
  have ab_hi: "a + b \<le> 3 * K" using eab s_hi us_hi K by linarith
  show "\<bar>roundDouble (x * x) + roundDouble (y * y)\<bar> < overflowThreshold"
    using ab0 ab_hi thr3 unfolding a_def b_def by linarith
  have c_eq: "c = roundDouble (a + b)" by (simp add: c_def a_def b_def)
  show c0: "0 \<le> c" unfolding c_eq using ab0 by (rule roundDouble_nonneg)
  have ec: "\<bar>c - (a + b)\<bar> \<le> u * (a + b) + \<eta>"
    using roundDouble_error [of "a + b"] ab0 by (simp add: c_eq u_def \<eta>_def)
  have uab: "u * (a + b) \<le> u * s + 3 * (u * (u * s))"
  proof -
    have "a + b \<le> s + 3 * (u * s)" using eab by linarith
    then have "u * (a + b) \<le> u * (s + 3 * (u * s))" using u(1) by (intro mult_left_mono) simp_all
    then show ?thesis by (simp add: algebra_simps)
  qed
  have ecs6: "\<bar>c - s\<bar> \<le> 6 * (u * s)" using ec uab eab eta_s uU U0 by linarith
  then have ecs: "\<bar>c - s\<bar> \<le> (6 * u) * s" by simp
  have c_hi: "c \<le> 3 * K" using ecs6 s_hi us_hi K by linarith
  have "sqrt c \<le> 1 + c" using c0 by (rule sqrt_le_Suc)
  moreover have "0 \<le> sqrt c" using c0 by simp
  ultimately show "\<bar>sqrt c\<bar> < overflowThreshold" using c_hi thr3 by linarith
  have sg: "\<sigma> = sqrt s" by (simp add: \<sigma>_def s_def)
  show sg0: "0 < \<sigma>" unfolding sg using s0 by simp
  have "\<bar>sqrt c - \<sigma>\<bar> \<le> (6 * u) * \<sigma>"
    unfolding sg using s0 c0 ecs by (rule sqrt_rel)
  then have sq: "\<bar>sqrt c - \<sigma>\<bar> \<le> 6 * (u * \<sigma>)" by simp
  have sg_lo: "1 / K \<le> \<sigma>"
  proof -
    have "1 / 2 ^ 511 \<le> sqrt s"
    proof (rule real_le_rsqrt)
      have "(1 / 2 ^ 511)\<^sup>2 = 1 / ((2::real) ^ 511 * 2 ^ 511)"
        by (simp add: power2_eq_square)
      then show "(1 / 2 ^ 511)\<^sup>2 \<le> s" using s_lo by (simp only: KK)
    qed
    moreover have "1 / K \<le> 1 / (2::real) ^ 511"
    proof -
      have "(2::real) ^ 511 * 1 \<le> 2 ^ 511 * 2 ^ 511" by (intro mult_left_mono) simp_all
      then have "(2::real) ^ 511 \<le> K" by (simp only: KK mult_1_right)
      then show ?thesis by (intro divide_left_mono) simp_all
    qed
    ultimately show ?thesis unfolding sg by linarith
  qed
  have eta_g: "\<eta> \<le> u * \<sigma>"
    unfolding eta using sg_lo u(1) by (intro mult_left_mono) simp_all
  have V0: "0 \<le> u * \<sigma>" using u sg0 by simp
  have uV: "u * (u * \<sigma>) \<le> (u * \<sigma>) / 1000"
  proof -
    have "u * (u * \<sigma>) \<le> (1 / 1000) * (u * \<sigma>)" using u(2) V0 by (intro mult_right_mono) simp_all
    then show ?thesis by simp
  qed
  have sc0: "0 \<le> sqrt c" using c0 by simp
  have em: "\<bar>roundDouble (sqrt c) - sqrt c\<bar> \<le> u * sqrt c + \<eta>"
    using roundDouble_error [of "sqrt c"] sc0 by (simp add: u_def \<eta>_def)
  have usc: "u * sqrt c \<le> u * \<sigma> + 6 * (u * (u * \<sigma>))"
  proof -
    have "sqrt c \<le> \<sigma> + 6 * (u * \<sigma>)" using sq by linarith
    then have "u * sqrt c \<le> u * (\<sigma> + 6 * (u * \<sigma>))" using u(1) by (intro mult_left_mono) simp_all
    then show ?thesis by (simp add: algebra_simps)
  qed
  have "\<bar>roundDouble (sqrt c) - \<sigma>\<bar> \<le> 9 * (u * \<sigma>)"
    using sq em usc eta_g uV V0 by linarith
  then show "\<bar>roundDouble (sqrt c) - \<sigma>\<bar> \<le> 9 * unitRoundoff * \<sigma>"
    by (simp add: u_def)
qed

lemma fl_small: "\<bar>t\<bar> \<le> 4 \<Longrightarrow> fl t = Finite (roundDouble t)"
  using overflowThreshold_large by (intro fl_finite) linarith

lemma fl_zero: "fl 0 = Finite 0"
  by (simp add: fl_small roundDouble_def)

lemma fl_overflow: "2 ^ 1024 \<le> t \<Longrightarrow> fl t = PosInfinity"
proof -
  assume t: "2 ^ 1024 \<le> t"
  have "(0::real) < 2 ^ 970" by simp
  then have "overflowThreshold \<le> \<bar>t\<bar>" "0 < t"
    using t by (simp_all add: overflowThreshold_def)
  then show ?thesis by (simp add: fl_def)
qed

lemma normalize_in_range:
  fixes x y :: real
  assumes lo: "1 / 2 ^ 511 \<le> max \<bar>x\<bar> \<bar>y\<bar>" and hi: "max \<bar>x\<bar> \<bar>y\<bar> \<le> 2 ^ 511"
  defines "v \<equiv> \<lparr> x64 = Finite x, y64 = Finite y \<rparr>"
  shows "\<exists>m. magnitude v = Finite m \<and> 0 < m
           \<and> \<bar>m - sqrt (x * x + y * y)\<bar> \<le> 9 * unitRoundoff * sqrt (x * x + y * y)"
    and "\<exists>r. magnitude (normalize_v v) = Finite r \<and> \<bar>r - 1\<bar> \<le> 1 / 2 ^ 45"
proof -
  define \<sigma> where "\<sigma> = sqrt (x * x + y * y)"
  define c where "c = roundDouble (roundDouble (x * x) + roundDouble (y * y))"
  define m where "m = roundDouble (sqrt c)"
  note h = magnitude_head [OF lo hi, folded \<sigma>_def c_def]
  have f1: "fl (x * x) = Finite (roundDouble (x * x))" using h(1) by (rule fl_finite)
  have f2: "fl (y * y) = Finite (roundDouble (y * y))" using h(2) by (rule fl_finite)
  have f3: "fl (roundDouble (x * x) + roundDouble (y * y)) = Finite c"
    unfolding c_def using h(3) by (rule fl_finite)
  have f4: "fl (sqrt c) = Finite m" unfolding m_def using h(5) by (rule fl_finite)
  have mag: "magnitude v = Finite m"
    using h(4) by (simp add: magnitude_def v_def f1 f2 f3 f4)
  have me: "\<bar>m - \<sigma>\<bar> \<le> 9 * unitRoundoff * \<sigma>" unfolding m_def by (rule h(7))
  note t = unit_tail [OF \<sigma>_def h(6) me]
  show "\<exists>m. magnitude v = Finite m \<and> 0 < m
           \<and> \<bar>m - sqrt (x * x + y * y)\<bar> \<le> 9 * unitRoundoff * sqrt (x * x + y * y)"
    using mag t(5) me unfolding \<sigma>_def by blast
  define p where "p = roundDouble (x / m)"
  define q where "q = roundDouble (y / m)"
  have m0: "m \<noteq> 0" using t(5) by simp
  have fx: "fl (x / m) = Finite p" unfolding p_def using t(6) by (rule fl_small)
  have fy: "fl (y / m) = Finite q" unfolding q_def using t(7) by (rule fl_small)
  have nv: "normalize_v v = \<lparr> x64 = Finite p, y64 = Finite q \<rparr>"
    unfolding normalize_v_def Let_def mag
    using m0 by (simp add: divide64_def Vector2D64_new_def v_def fx fy)
  define A where "A = roundDouble (p * p)"
  define B where "B = roundDouble (q * q)"
  define C where "C = roundDouble (A + B)"
  have fA: "fl (p * p) = Finite A" unfolding A_def p_def using t(8) by (rule fl_small)
  have fB: "fl (q * q) = Finite B" unfolding B_def q_def using t(9) by (rule fl_small)
  have fC: "fl (A + B) = Finite C"
    unfolding C_def A_def B_def p_def q_def using t(1) by (rule fl_small)
  have C0: "0 \<le> C" unfolding C_def A_def B_def p_def q_def by (rule t(2))
  have fr: "fl (sqrt C) = Finite (roundDouble (sqrt C))"
    unfolding C_def A_def B_def p_def q_def using t(3) by (rule fl_small)
  have "magnitude (normalize_v v) = Finite (roundDouble (sqrt C))"
    using C0 by (simp add: nv magnitude_def fA fB fC fr)
  moreover have "\<bar>roundDouble (sqrt C) - 1\<bar> \<le> 1 / 2 ^ 45"
    using t(4) unfolding C_def A_def B_def p_def q_def .
  ultimately show "\<exists>r. magnitude (normalize_v v) = Finite r \<and> \<bar>r - 1\<bar> \<le> 1 / 2 ^ 45"
    by blast
qed

text \<open>
  C9 (amended). In double precision: a vector whose magnitude is 0 normalizes to the
  zero vector, and dividing a vector by 0 returns the zero vector, for every vector.
  For a vector with finite components of which the larger lies between \<open>2^-511\<close> and
  \<open>2^511\<close> in absolute value (so that \<open>x*x + y*y\<close> neither overflows nor underflows),
  the magnitude is not 0 and the magnitude of the normalized vector is within
  \<open>2^-45\<close> of 1.
\<close>

theorem normalize_unit_in_range:
  "(magnitude v = Finite 0 \<longrightarrow> normalize_v v = \<lparr> x64 = Finite 0, y64 = Finite 0 \<rparr>)
   \<and> divide64 v (Finite 0) = \<lparr> x64 = Finite 0, y64 = Finite 0 \<rparr>
   \<and> (\<forall>x y. v = \<lparr> x64 = Finite x, y64 = Finite y \<rparr>
          \<and> 1 / 2 ^ 511 \<le> max \<bar>x\<bar> \<bar>y\<bar> \<and> max \<bar>x\<bar> \<bar>y\<bar> \<le> 2 ^ 511 \<longrightarrow>
        magnitude v \<noteq> Finite 0
        \<and> (\<exists>r. magnitude (normalize_v v) = Finite r \<and> \<bar>r - 1\<bar> \<le> 1 / 2 ^ 45))"
proof (intro conjI allI impI)
  assume "magnitude v = Finite 0"
  then show "normalize_v v = \<lparr> x64 = Finite 0, y64 = Finite 0 \<rparr>"
    by (simp add: normalize_v_def Vector2D64_new_def Let_def)
next
  show "divide64 v (Finite 0) = \<lparr> x64 = Finite 0, y64 = Finite 0 \<rparr>"
    by (simp add: divide64_def Vector2D64_new_def)
next
  fix x y
  assume h: "v = \<lparr> x64 = Finite x, y64 = Finite y \<rparr>
      \<and> 1 / 2 ^ 511 \<le> max \<bar>x\<bar> \<bar>y\<bar> \<and> max \<bar>x\<bar> \<bar>y\<bar> \<le> 2 ^ 511"
  then have lo: "1 / 2 ^ 511 \<le> max \<bar>x\<bar> \<bar>y\<bar>" and hi: "max \<bar>x\<bar> \<bar>y\<bar> \<le> 2 ^ 511"
    and v: "v = \<lparr> x64 = Finite x, y64 = Finite y \<rparr>" by simp_all
  obtain m where "magnitude v = Finite m" "0 < m"
    unfolding v using normalize_in_range(1) [OF lo hi] by blast
  then show "magnitude v \<noteq> Finite 0" by simp
  show "\<exists>r. magnitude (normalize_v v) = Finite r \<and> \<bar>r - 1\<bar> \<le> 1 / 2 ^ 45"
    unfolding v using lo hi by (rule normalize_in_range(2))
qed

theorem normalize_unit_in_range_witness:
  "magnitude \<lparr> x64 = Finite 3, y64 = Finite 4 \<rparr> \<noteq> Finite 0
   \<and> (\<exists>r. magnitude (normalize_v \<lparr> x64 = Finite 3, y64 = Finite 4 \<rparr>) = Finite r
          \<and> \<bar>r - 1\<bar> \<le> 1 / 2 ^ 45)"
proof -
  have r: "(1::real) / 2 ^ 511 \<le> max \<bar>3\<bar> \<bar>4\<bar> \<and> max \<bar>3::real\<bar> \<bar>4\<bar> \<le> 2 ^ 511"
    by simp
  have "\<forall>x y. \<lparr> x64 = Finite 3, y64 = Finite 4 \<rparr> = \<lparr> x64 = Finite x, y64 = Finite y \<rparr>
          \<and> 1 / 2 ^ 511 \<le> max \<bar>x\<bar> \<bar>y\<bar> \<and> max \<bar>x\<bar> \<bar>y\<bar> \<le> 2 ^ 511 \<longrightarrow>
        magnitude \<lparr> x64 = Finite 3, y64 = Finite 4 \<rparr> \<noteq> Finite 0
        \<and> (\<exists>r. magnitude (normalize_v \<lparr> x64 = Finite 3, y64 = Finite 4 \<rparr>) = Finite r
               \<and> \<bar>r - 1\<bar> \<le> 1 / 2 ^ 45)"
    using normalize_unit_in_range [of "\<lparr> x64 = Finite 3, y64 = Finite 4 \<rparr>"] by (elim conjE)
  then show ?thesis using r by blast
qed

text \<open>
  C9 as it was stated fails by overflow. The vector \<open>(2^700, 2^700)\<close> has finite
  components; \<open>x*x\<close> overflows, so its magnitude is \<open>Infinity\<close>, which is not 0, and
  \<open>normalize\<close> divides by it and returns \<open>(0, 0)\<close>, of magnitude 0.
\<close>

theorem normalize_overflow_counterexample:
  "magnitude \<lparr> x64 = Finite (2 ^ 700), y64 = Finite (2 ^ 700) \<rparr> = PosInfinity
   \<and> magnitude \<lparr> x64 = Finite (2 ^ 700), y64 = Finite (2 ^ 700) \<rparr> \<noteq> Finite 0
   \<and> normalize_v \<lparr> x64 = Finite (2 ^ 700), y64 = Finite (2 ^ 700) \<rparr>
        = \<lparr> x64 = Finite 0, y64 = Finite 0 \<rparr>
   \<and> magnitude (normalize_v \<lparr> x64 = Finite (2 ^ 700), y64 = Finite (2 ^ 700) \<rparr>) = Finite 0"
proof -
  define v where "v = \<lparr> x64 = Finite (2 ^ 700), y64 = Finite (2 ^ 700) \<rparr>"
  have "(2::real) ^ 1024 \<le> 2 ^ 1400" by (rule power_increasing) simp_all
  moreover have "(2::real) ^ 700 * 2 ^ 700 = 2 ^ 1400"
    by (simp only: power_add [symmetric]) simp
  ultimately have sq: "fl (2 ^ 700 * 2 ^ 700) = PosInfinity"
    by (intro fl_overflow) simp
  have mag: "magnitude v = PosInfinity"
    unfolding magnitude_def v_def
    by (simp only: Vector2D64.select_convs num_mul.simps sq num_add.simps num_sqrt.simps)
  have nv: "normalize_v v = \<lparr> x64 = Finite 0, y64 = Finite 0 \<rparr>"
    unfolding normalize_v_def Let_def divide64_def v_def mag [unfolded v_def]
    by (simp only: Vector2D64.select_convs num_div.simps Vector2D64_new_def number.distinct if_False)
  have "magnitude \<lparr> x64 = Finite 0, y64 = Finite 0 \<rparr> = Finite 0"
    by (simp add: magnitude_def fl_zero)
  then show ?thesis
    using mag nv unfolding v_def by simp
qed

text \<open>
  The lower end of the range is needed as well. At \<open>(3 * 2^-539, 0)\<close> the square
  \<open>9 * 2^-1078\<close> is rounded to the smallest subnormal \<open>2^-1074\<close>; the magnitude is
  \<open>2^-537\<close>, not 0, and the normalized vector has magnitude \<open>3/4\<close>.
\<close>

lemma roundHalfEven_int: "roundHalfEven (of_int k) = k"
  by (simp add: roundHalfEven_def)

lemma floor_log2:
  assumes "0 < t" "2 powr (of_int e) \<le> t" "t < 2 powr (of_int e + 1)"
  shows "\<lfloor>log 2 t\<rfloor> = e"
proof (rule floor_unique)
  show "of_int e \<le> log 2 t" using assms(1,2) by (simp add: le_log_iff)
  show "log 2 t < of_int e + 1" using assms(1,3) by (simp add: log_less_iff)
qed

lemma roundDouble_exact:
  assumes "0 < t" "2 powr (of_int e) \<le> t" "t < 2 powr (of_int e + 1)" "- 1022 \<le> e"
    and "t = of_int k * 2 powr (of_int e - 52)"
  shows "roundDouble t = t"
proof -
  have "\<lfloor>log 2 \<bar>t\<bar>\<rfloor> = e" using assms(1-3) by (simp add: floor_log2)
  then have q: "quantum t = 2 powr (of_int e - 52)"
    using assms(4) by (simp add: quantum_def max_def)
  have "t / quantum t = of_int k" unfolding q by (subst assms(5)) simp
  then have "roundDouble t = quantum t * of_int k"
    using assms(1) by (simp add: roundDouble_def roundHalfEven_int)
  also have "\<dots> = t" unfolding q using assms(5) by (simp add: mult.commute)
  finally show ?thesis .
qed

lemma quantum_subnormal:
  assumes "0 < t" "t < 1 / 2 ^ 1022"
  shows "quantum t = 1 / 2 ^ 1074"
proof -
  have "t < 2 powr (- 1022)" using assms(2) by (simp add: powr_minus_divide)
  then have "log 2 t < - 1022" using assms(1) by (simp add: log_less_iff)
  then have "\<lfloor>log 2 t\<rfloor> < - 1022" by linarith
  then have "quantum t = 2 powr (- 1074)"
    using assms(1) by (simp add: quantum_def max_def)
  then show ?thesis by (simp add: powr_minus_divide)
qed

lemma roundDouble_steps:
  "t \<noteq> 0 \<Longrightarrow> quantum t = q \<Longrightarrow> t / q = s \<Longrightarrow> roundHalfEven s = k \<Longrightarrow>
   roundDouble t = q * of_int k"
  by (simp add: roundDouble_def)

lemma round_tiny_square: "roundDouble (9 / 2 ^ 1078) = 1 / 2 ^ 1074"
proof -
  have "roundDouble (9 / 2 ^ 1078) = (1 / 2 ^ 1074) * of_int 1"
  proof (rule roundDouble_steps [where s = "9 / 16"])
    show "(9 / 2 ^ 1078 :: real) \<noteq> 0" by simp
    show "quantum (9 / 2 ^ 1078) = 1 / 2 ^ 1074" by (rule quantum_subnormal) simp_all
    have "(2::real) ^ 1078 = 2 ^ 1074 * 2 ^ 4" by (simp only: power_add [symmetric]) simp
    then have "(2::real) ^ 1078 = 2 ^ 1074 * 16" by simp
    then show "(9 / 2 ^ 1078) / (1 / 2 ^ 1074) = (9 / 16 :: real)" by simp
    show "roundHalfEven (9 / 16) = 1" by (simp add: roundHalfEven_def)
  qed
  then show ?thesis by simp
qed

lemma round_min_subnormal: "roundDouble (1 / 2 ^ 1074) = 1 / 2 ^ 1074"
proof -
  have "roundDouble (1 / 2 ^ 1074) = (1 / 2 ^ 1074) * of_int 1"
  proof (rule roundDouble_steps [where s = 1])
    show "(1 / 2 ^ 1074 :: real) \<noteq> 0" by simp
    show "quantum (1 / 2 ^ 1074) = 1 / 2 ^ 1074" by (rule quantum_subnormal) simp_all
    show "(1 / 2 ^ 1074) / (1 / 2 ^ 1074) = (1 :: real)" by simp
    show "roundHalfEven 1 = 1" using roundHalfEven_int [of 1] by simp
  qed
  then show ?thesis by simp
qed

lemma round_sqrt_min: "roundDouble (1 / 2 ^ 537) = 1 / 2 ^ 537"
proof (rule roundDouble_exact [where e = "- 537" and k = "2 ^ 52"])
  show "(0::real) < 1 / 2 ^ 537" by simp
  show "2 powr (of_int (- 537)) \<le> (1::real) / 2 ^ 537" by (simp add: powr_minus_divide)
  show "(1::real) / 2 ^ 537 < 2 powr (of_int (- 537) + 1)" by (simp add: powr_minus_divide)
  show "- 1022 \<le> (- 537 :: int)" by simp
  have "(2::real) ^ 589 = 2 ^ 52 * 2 ^ 537" by (simp only: power_add [symmetric]) simp
  then show "(1::real) / 2 ^ 537 = of_int (2 ^ 52) * 2 powr (of_int (- 537) - 52)"
    by (simp add: powr_minus_divide)
qed

lemma round_three_quarters: "roundDouble (3 / 4) = 3 / 4"
proof (rule roundDouble_exact [where e = "- 1" and k = "3 * 2 ^ 51"])
  show "(3 / 4 :: real) = of_int (3 * 2 ^ 51) * 2 powr (of_int (- 1) - 52)"
    by (simp add: powr_minus_divide)
qed (simp_all add: powr_minus_divide)

lemma round_nine_sixteenths: "roundDouble (9 / 16) = 9 / 16"
proof (rule roundDouble_exact [where e = "- 1" and k = "9 * 2 ^ 49"])
  show "(9 / 16 :: real) = of_int (9 * 2 ^ 49) * 2 powr (of_int (- 1) - 52)"
    by (simp add: powr_minus_divide)
qed (simp_all add: powr_minus_divide)

lemma fl_value: "\<bar>t\<bar> \<le> 4 \<Longrightarrow> roundDouble t = r \<Longrightarrow> fl t = Finite r"
  by (simp add: fl_small)

lemma normalize_underflow_example:
  "magnitude \<lparr> x64 = Finite (3 / 2 ^ 539), y64 = Finite 0 \<rparr> = Finite (1 / 2 ^ 537)
   \<and> normalize_v \<lparr> x64 = Finite (3 / 2 ^ 539), y64 = Finite 0 \<rparr>
        = \<lparr> x64 = Finite (3 / 4), y64 = Finite 0 \<rparr>
   \<and> magnitude (normalize_v \<lparr> x64 = Finite (3 / 2 ^ 539), y64 = Finite 0 \<rparr>) = Finite (3 / 4)"
proof -
  define v where "v = \<lparr> x64 = Finite (3 / 2 ^ 539), y64 = Finite 0 \<rparr>"
  have xx: "(3 / 2 ^ 539) * (3 / 2 ^ 539) = (9 / 2 ^ 1078 :: real)"
  proof -
    have "(2::real) ^ 539 * 2 ^ 539 = 2 ^ 1078" by (simp only: power_add [symmetric]) simp
    then show ?thesis by simp
  qed
  have f1: "fl ((3 / 2 ^ 539) * (3 / 2 ^ 539)) = Finite (1 / 2 ^ 1074)"
    unfolding xx by (rule fl_value [OF _ round_tiny_square]) simp
  have f2: "fl (1 / 2 ^ 1074 + 0) = Finite (1 / 2 ^ 1074)"
    unfolding add_0_right by (rule fl_value [OF _ round_min_subnormal]) simp
  have sq: "sqrt (1 / 2 ^ 1074) = 1 / 2 ^ 537"
  proof (rule real_sqrt_unique)
    have "((2::real) ^ 537)\<^sup>2 = 2 ^ 1074" by (simp only: power_mult [symmetric]) simp
    then show "(1 / 2 ^ 537)\<^sup>2 = (1 / 2 ^ 1074 :: real)" by (simp only: power_divide power_one)
  qed simp
  have f3: "fl (sqrt (1 / 2 ^ 1074)) = Finite (1 / 2 ^ 537)"
    unfolding sq by (rule fl_value [OF _ round_sqrt_min]) simp
  have z: "(0::real) * 0 = 0" by simp
  have p0: "\<not> (1 / 2 ^ 1074 :: real) < 0" by simp
  have mag: "magnitude v = Finite (1 / 2 ^ 537)"
    unfolding magnitude_def v_def
    by (simp only: Vector2D64.select_convs num_mul.simps num_add.simps num_sqrt.simps
        f1 f2 f3 fl_zero z p0 if_False)
  have dv: "(3 / 2 ^ 539) / (1 / 2 ^ 537) = (3 / 4 :: real)"
  proof -
    have "(2::real) ^ 539 = 2 ^ 537 * 2 ^ 2" by (simp only: power_add [symmetric]) simp
    then have "(2::real) ^ 539 = 2 ^ 537 * 4" by simp
    then show ?thesis by simp
  qed
  have f4: "fl ((3 / 2 ^ 539) / (1 / 2 ^ 537)) = Finite (3 / 4)"
    unfolding dv by (rule fl_value [OF _ round_three_quarters]) simp
  have f4': "fl (0 / (1 / 2 ^ 537)) = Finite 0"
    unfolding divide_eq_0_iff [THEN iffD2, OF disjI1 [OF refl]] by (rule fl_zero)
  have nz: "(Finite (1 / 2 ^ 537) = Finite 0) = False" "((1 / 2 ^ 537 :: real) = 0) = False"
    by simp_all
  have nv: "normalize_v v = \<lparr> x64 = Finite (3 / 4), y64 = Finite 0 \<rparr>"
    unfolding normalize_v_def Let_def divide64_def v_def mag [unfolded v_def]
    by (simp only: Vector2D64.select_convs num_div.simps Vector2D64_new_def nz if_False f4 f4')
  have f5: "fl (3 / 4 * (3 / 4)) = Finite (9 / 16)"
    by (rule fl_value) (simp_all add: round_nine_sixteenths)
  have f6: "fl (9 / 16 + 0) = Finite (9 / 16)"
    by (rule fl_value) (simp_all add: round_nine_sixteenths)
  have sq2: "sqrt (9 / 16) = 3 / 4"
    by (rule real_sqrt_unique) (simp_all add: power2_eq_square)
  have f7: "fl (sqrt (9 / 16)) = Finite (3 / 4)"
    unfolding sq2 by (rule fl_value [OF _ round_three_quarters]) simp
  have p1: "\<not> (9 / 16 :: real) < 0" by simp
  have "magnitude \<lparr> x64 = Finite (3 / 4), y64 = Finite 0 \<rparr> = Finite (3 / 4)"
    unfolding magnitude_def
    by (simp only: Vector2D64.select_convs num_mul.simps num_add.simps num_sqrt.simps
        f5 f6 f7 fl_zero z p1 if_False)
  then show ?thesis
    using mag nv unfolding v_def by (simp only: simp_thms)
qed

subsection \<open>Particle system\<close>

declare emit_loop.simps [simp del]

lemma update_loop_length: "length (update_loop dt i ps) \<le> length ps"
proof (induction i arbitrary: ps)
  case 0
  show ?case by simp
next
  case (Suc i)
  define ps1 where "ps1 = ps[i := age dt (ps ! i)]"
  define ps2 where
    "ps2 = (if p_life (age dt (ps ! i)) \<le> 0 then take i ps1 @ drop (Suc i) ps1 else ps1)"
  have "length ps2 \<le> length ps"
    by (simp add: ps2_def ps1_def) linarith
  moreover have "length (update_loop dt i ps2) \<le> length ps2"
    by (rule Suc.IH)
  moreover have "update_loop dt (Suc i) ps = update_loop dt i ps2"
    by (simp add: Let_def ps2_def ps1_def)
  ultimately show ?case by simp
qed

lemma emit_loop_unfold_true:
  "real i < cnt \<Longrightarrow> real (length (particles s)) < maxParticles s \<Longrightarrow>
   emit_loop rnd x y cnt opts i k s =
     emit_loop rnd x y cnt opts (i + 1) (k + 4)
       (s\<lparr>particles := particles s @ [spawn rnd k x y opts]\<rparr>)"
  by (subst emit_loop.simps) simp

lemma emit_loop_unfold_false:
  "\<not> (real i < cnt \<and> real (length (particles s)) < maxParticles s) \<Longrightarrow>
   emit_loop rnd x y cnt opts i k s = (s, k)"
  by (subst emit_loop.simps) (simp only: if_False)

lemma emit_loop_max: "maxParticles (fst (emit_loop rnd x y cnt opts i k s)) = maxParticles s"
proof (induction rnd x y cnt opts i k s rule: emit_loop.induct)
  case (1 rnd x y cnt opts i k s)
  show ?case
  proof (cases "real i < cnt \<and> real (length (particles s)) < maxParticles s")
    case True
    then show ?thesis
      using "1.IH" by (simp add: emit_loop_unfold_true)
  next
    case False
    then show ?thesis by (simp add: emit_loop_unfold_false)
  qed
qed

lemma emit_loop_bounded:
  "maxParticles s = real N \<Longrightarrow> length (particles s) \<le> N \<Longrightarrow>
   length (particles (fst (emit_loop rnd x y cnt opts i k s))) \<le> N"
proof (induction rnd x y cnt opts i k s rule: emit_loop.induct)
  case (1 rnd x y cnt opts i k s)
  show ?case
  proof (cases "real i < cnt \<and> real (length (particles s)) < maxParticles s")
    case True
    then have lt: "length (particles s) < N" using "1.prems" by simp
    have "length (particles (fst (emit_loop rnd x y cnt opts (i + 1) (k + 4)
             (s\<lparr>particles := particles s @ [spawn rnd k x y opts]\<rparr>)))) \<le> N"
      using True lt "1.prems" by (intro "1.IH") simp_all
    then show ?thesis
      using True by (simp add: emit_loop_unfold_true)
  next
    case False
    then show ?thesis using "1.prems" by (simp add: emit_loop_unfold_false)
  qed
qed

lemma emit_loop_fills:
  "maxParticles s = real N \<Longrightarrow> length (particles s) \<le> N \<Longrightarrow>
   cnt - real i > real N - real (length (particles s)) \<Longrightarrow>
   length (particles (fst (emit_loop rnd x y cnt opts i k s))) = N"
proof (induction rnd x y cnt opts i k s rule: emit_loop.induct)
  case (1 rnd x y cnt opts i k s)
  show ?case
  proof (cases "real i < cnt \<and> real (length (particles s)) < maxParticles s")
    case True
    then have lt: "length (particles s) < N" using "1.prems" by simp
    have "length (particles (fst (emit_loop rnd x y cnt opts (i + 1) (k + 4)
             (s\<lparr>particles := particles s @ [spawn rnd k x y opts]\<rparr>)))) = N"
      using True lt "1.prems" by (intro "1.IH") simp_all
    then show ?thesis
      using True by (simp add: emit_loop_unfold_true)
  next
    case False
    then have "length (particles s) = N" using "1.prems" by auto
    then show ?thesis using False by (simp add: emit_loop_unfold_false)
  qed
qed

lemma ps_step_invariant:
  "maxParticles (fst st) = real N \<Longrightarrow> length (particles (fst st)) \<le> N \<Longrightarrow>
   maxParticles (fst (ps_step rnd st c)) = real N
   \<and> length (particles (fst (ps_step rnd st c))) \<le> N"
proof (cases st)
  case (Pair s k)
  assume m: "maxParticles (fst st) = real N" and l: "length (particles (fst st)) \<le> N"
  show ?thesis
  proof (cases c)
    case (CallEmit x y cnt options)
    then show ?thesis
      using Pair m l by (simp add: emit_def emit_loop_max emit_loop_bounded)
  next
    case (CallUpdate dt)
    have "length (update_loop dt (length (particles s)) (particles s)) \<le> length (particles s)"
      by (rule update_loop_length)
    then show ?thesis
      using Pair CallUpdate m l by (simp add: update_ps_def)
  next
    case CallClear
    then show ?thesis using Pair m by (simp add: clear_ps_def)
  next
    case CallCount
    then show ?thesis using Pair m l by simp
  qed
qed

lemma ps_run_invariant:
  "maxParticles (fst st) = real N \<Longrightarrow> length (particles (fst st)) \<le> N \<Longrightarrow>
   maxParticles (fst (ps_run rnd calls st)) = real N
   \<and> length (particles (fst (ps_run rnd calls st))) \<le> N"
  unfolding ps_run_def
proof (induction calls arbitrary: st)
  case Nil
  then show ?case by simp
next
  case (Cons c calls)
  have "maxParticles (fst (ps_step rnd st c)) = real N
        \<and> length (particles (fst (ps_step rnd st c))) \<le> N"
    using Cons.prems by (rule ps_step_invariant)
  then show ?case
    using Cons.IH [of "ps_step rnd st c"] by simp
qed

text \<open>
  C5. A particle system constructed with a maximum of \<open>N\<close> particles (\<open>N\<close> a natural
  number) holds at most \<open>N\<close> particles after any sequence of \<open>emit\<close>, \<open>update\<close>,
  \<open>clear\<close> and \<open>count\<close> calls, whatever the random draws; and from any such state, an
  \<open>emit\<close> that asks for more than the remaining capacity returns normally with
  \<open>count\<close> equal to \<open>N\<close> exactly.
\<close>

theorem particle_count_never_exceeds_max:
  "let s = fst (ps_run rnd calls (ParticleSystem_new (real N), k0)) in
     count s \<le> N
     \<and> (\<forall>x y cnt options k.
          cnt > real N - real (count s) \<longrightarrow> count (fst (emit rnd k s x y cnt options)) = N)"
proof -
  define s where "s = fst (ps_run rnd calls (ParticleSystem_new (real N), k0))"
  have inv: "maxParticles s = real N \<and> length (particles s) \<le> N"
    unfolding s_def by (rule ps_run_invariant) (simp_all add: ParticleSystem_new_def)
  have fill: "count (fst (emit rnd k s x y cnt options)) = N"
    if "cnt > real N - real (count s)" for x y cnt options k
    unfolding emit_def count_def
    by (rule emit_loop_fills) (use inv that in \<open>simp_all add: count_def\<close>)
  show ?thesis
    using inv fill by (simp add: Let_def s_def [symmetric] count_def)
qed



theorem particle_count_never_exceeds_max_witness:
  "(7::real) > real 3 - real (count (fst (ps_run (\<lambda>n. 1 / 2) [CallEmit 0 0 2 None, CallUpdate (1 / 10)]
        (ParticleSystem_new (real 3), 0))))
   \<and> count (fst (ps_run (\<lambda>n. 1 / 2) [CallEmit 0 0 2 None, CallUpdate (1 / 10)]
        (ParticleSystem_new (real 3), 0))) = 2
   \<and> count (fst (emit (\<lambda>n. 1 / 2) 8
        (fst (ps_run (\<lambda>n. 1 / 2) [CallEmit 0 0 2 None, CallUpdate (1 / 10)] (ParticleSystem_new (real 3), 0)))
        5 5 7 None)) = 3"
proof -
  define s where
    "s = fst (ps_run (\<lambda>n. 1 / 2) [CallEmit 0 0 2 None, CallUpdate (1 / 10)] (ParticleSystem_new (real 3), 0))"
  have e: "emit (\<lambda>n. 1 / 2) 0 (ParticleSystem_new 3) 0 0 2 None =
      (\<lparr> particles = [spawn (\<lambda>n. 1 / 2) 0 0 0 defaults, spawn (\<lambda>n. 1 / 2) 4 0 0 defaults],
         maxParticles = 3 \<rparr>, 8)"
    by (simp add: emit_def merge_options_def ParticleSystem_new_def
        emit_loop_unfold_true emit_loop_unfold_false)
  have l: "p_life (age (1 / 10) (spawn (\<lambda>n. 1 / 2) k 0 0 defaults)) = 900" for k
    by (simp add: age_def spawn_def defaults_def)
  have c: "count s = 2"
    unfolding s_def ps_run_def
    by (simp add: e update_ps_def count_def numeral_2_eq_2 l Let_def)
  have h: "(7::real) > real 3 - real (count s)"
    by (simp add: c)
  have "count (fst (emit (\<lambda>n. 1 / 2) 8 s 5 5 7 None)) = 3"
    using particle_count_never_exceeds_max [of "\<lambda>n. 1 / 2" "[CallEmit 0 0 2 None, CallUpdate (1 / 10)]" 3 0] h
    unfolding s_def [symmetric] Let_def by blast
  then show ?thesis
    using c h unfolding s_def by simp
qed

subsection \<open>Puzzle engine\<close>






















text \<open>On a grid without cells the first read of the horizontal scan throws.\<close>

lemma checkMatches_empty_grid:
  "checkMatches rnd k now cv (s\<lparr>grid := []\<rparr>) = Inl TypeError"
  by (simp add: checkMatches_def horizontalMatches_def GRID_SIZE_def matchAt_def colorAt_def
      upt_conv_Cons)

subsection \<open>Runner engine\<close>

text \<open>
  Whenever the distance reaches a multiple of 10 the score is set to a tenth of the
  distance, whatever it was: what the coins had added is gone.
\<close>

lemma updateDistance_overwrites:
  "(distance s + 1) mod 10 = 0 \<Longrightarrow>
   r_score (fst (updateDistance level s)) = (distance s + 1) div 10"
  by (simp add: updateDistance_def stopGameLoop_def Let_def)

lemma handleCoinCollection_adds:
  "handleCoinCollection level s =
     (s\<lparr>r_score := r_score s + coinValue level\<rparr>, [onScoreChange (r_score s + coinValue level)])"
  by (simp add: handleCoinCollection_def Let_def)

text \<open>
  C2 (the code departs from it). Level 1 (coin value 10) on a screen 375 wide, one
  coin spawned in the player's lane at the first tick. The coin is collected at tick
  62: the distance is 62 and the score 6 + 10 = 16, reported through
  \<open>onScoreChange\<close>. At tick 70 the score is set to 7 and reported as 7, where the
  claim asks for floor(70 / 10) + 10 = 17.
\<close>

theorem coin_bonus_overwritten:
  "coinValue (LEVELS ! 0) = 10
   \<and> (case ticks coinAtFirstTick 375 (LEVELS ! 0) 62 (initialRunner, 0, []) of
        (s, k, cbs) \<Rightarrow> (distance s, r_score s, last cbs)) = (62, 16, onScoreChange 16)
   \<and> (case ticks coinAtFirstTick 375 (LEVELS ! 0) 70 (initialRunner, 0, []) of
        (s, k, cbs) \<Rightarrow> (distance s, r_score s, last cbs, gameLoop s)) = (70, 7, onScoreChange 7, True)"
  by code_simp

subsection \<open>Input manager\<close>

lemma im_run_Nil [simp]: "im_run m [] = m"
  by (simp add: im_run_def)

lemma im_run_Cons [simp]: "im_run m (c # cs) = im_run (im_step m c) cs"
  by (simp add: im_run_def)


lemma clearLongPress_fields [simp]:
  "touchState (clearLongPress ts m) = touchState m"
  "config (clearLongPress ts m) = config m"
  "emitted (clearLongPress ts m) = emitted m"
  "nextTimer (clearLongPress ts m) = nextTimer m"
  "listeners (clearLongPress ts m) = listeners m"
  by (simp_all add: clearLongPress_def clearTimeout_def split: option.split)

lemma clearLongPress_timers:
  "set (timers (clearLongPress ts m)) \<subseteq> set (timers m)"
  "longPressTimer ts = Some t \<Longrightarrow> t \<notin> fst ` set (timers (clearLongPress ts m))"
  by (auto simp: clearLongPress_def clearTimeout_def split: option.split)

lemma emit_event_fields [simp]:
  "touchState (emit_event e m) = touchState m"
  "config (emit_event e m) = config m"
  "emitted (emit_event e m) = emitted m @ [e]"
  "timers (emit_event e m) = timers m"
  "nextTimer (emit_event e m) = nextTimer m"
  by (simp_all add: emit_event_def)

lemma mkEvent_type [simp]: "ev_type (mkEvent ty px py ts dx dy dur) = ty"
  by (simp add: mkEvent_def)

text \<open>The effect of each handler on the parts of the state the gesture claims read.\<close>

lemma handleTouchStart_effect:
  "\<exists>ts. touchState (handleTouchStart now x y m) = Some ts
        \<and> startX ts = x \<and> startY ts = y \<and> \<not> isDragging ts \<and> \<not> longPressTriggered ts
        \<and> startTime ts = now
        \<and> lastTapTime ts = (case touchState m of Some old \<Rightarrow> lastTapTime old | None \<Rightarrow> 0)"
  "config (handleTouchStart now x y m) = config m"
  "emitted (handleTouchStart now x y m) = emitted m"
  by (simp_all add: handleTouchStart_def Let_def split: option.split)











lemma timers_owned_new: "timers_owned (InputManager_new cfg)"
  by (simp add: timers_owned_def InputManager_new_def)

lemma timers_owned_on_off:
  "timers_owned m \<Longrightarrow> timers_owned (on ty cb m)"
  "timers_owned m \<Longrightarrow> timers_owned (off ty cb m)"
  by (auto simp: timers_owned_def on_def off_def)

lemma timers_owned_owner:
  assumes "timers_owned m" "p \<in> set (timers m)"
  obtains ts where "touchState m = Some ts" "longPressTimer ts = Some (fst p)" "\<not> isDragging ts"
  using assms unfolding timers_owned_def by blast

lemma no_member_Nil: "(\<And>p. p \<notin> set xs) \<Longrightarrow> xs = []"
  by (cases xs) auto

lemma timers_owned_cleared:
  assumes "timers_owned m" "touchState m = Some ts"
  shows "timers (clearLongPress ts m) = []"
proof (cases "longPressTimer ts")
  case None
  have "p \<notin> set (timers m)" for p
  proof
    assume "p \<in> set (timers m)"
    with assms(1) obtain ts' where "touchState m = Some ts'" "longPressTimer ts' = Some (fst p)"
      by (rule timers_owned_owner)
    then show False using assms(2) None by simp
  qed
  then have "timers m = []" by (rule no_member_Nil)
  then show ?thesis using None by (simp add: clearLongPress_def)
next
  case (Some t)
  have "\<forall>p \<in> set (timers m). fst p = t"
  proof
    fix p assume "p \<in> set (timers m)"
    with assms(1) obtain ts' where "touchState m = Some ts'" "longPressTimer ts' = Some (fst p)"
      by (rule timers_owned_owner)
    then show "fst p = t" using assms(2) Some by simp
  qed
  then have "filter (\<lambda>p. fst p \<noteq> t) (timers m) = []"
    by (simp add: filter_empty_conv)
  then show ?thesis using Some by (simp add: clearLongPress_def clearTimeout_def)
qed

lemma timers_owned_idle:
  assumes "timers_owned m" "touchState m = None"
  shows "timers m = []"
proof -
  have "p \<notin> set (timers m)" for p
  proof
    assume "p \<in> set (timers m)"
    with assms(1) obtain ts' where "touchState m = Some ts'"
      by (rule timers_owned_owner)
    then show False using assms(2) by simp
  qed
  then show ?thesis by (rule no_member_Nil)
qed

lemma timers_owned_start: "timers_owned m \<Longrightarrow> timers_owned (handleTouchStart now x y m)"
proof (cases "touchState m")
  case None
  assume inv: "timers_owned m"
  have "timers m = []" using inv None by (rule timers_owned_idle)
  then show ?thesis
    using None by (simp add: timers_owned_def handleTouchStart_def Let_def)
next
  case (Some old)
  assume inv: "timers_owned m"
  have "timers (clearLongPress old m) = []" using inv Some by (rule timers_owned_cleared)
  then show ?thesis
    using Some by (simp add: timers_owned_def handleTouchStart_def Let_def)
qed

lemma timers_owned_end: "timers_owned m \<Longrightarrow> timers_owned (handleTouchEnd now x y m)"
proof (cases "touchState m")
  case None
  assume "timers_owned m"
  then show ?thesis using None by (simp add: handleTouchEnd_def)
next
  case (Some ts)
  assume inv: "timers_owned m"
  have c: "timers (clearLongPress ts m) = []" using inv Some by (rule timers_owned_cleared)
  have "timers (handleTouchEnd now x y m) = [] \<and> touchState (handleTouchEnd now x y m) = None"
    using Some c by (simp add: handleTouchEnd_def Let_def)
  then show ?thesis by (simp add: timers_owned_def)
qed

lemma timers_owned_clear: "timers_owned m \<Longrightarrow> timers_owned (clear m)"
proof (cases "touchState m")
  case None
  assume inv: "timers_owned m"
  have "timers m = []" using inv None by (rule timers_owned_idle)
  then show ?thesis using None by (simp add: clear_def timers_owned_def)
next
  case (Some ts)
  assume inv: "timers_owned m"
  have inv': "timers_owned (m\<lparr>listeners := (\<lambda>ty. [])\<rparr>)"
    using inv by (auto simp: timers_owned_def)
  have "timers (clearLongPress ts (m\<lparr>listeners := (\<lambda>ty. [])\<rparr>)) = []"
    using inv' by (rule timers_owned_cleared) (simp add: Some)
  then show ?thesis using Some by (simp add: clear_def timers_owned_def)
qed

lemma timers_owned_move: "timers_owned m \<Longrightarrow> timers_owned (handleTouchMove now x y m)"
proof (cases "touchState m")
  case None
  assume "timers_owned m"
  then show ?thesis using None by (simp add: handleTouchMove_def)
next
  case (Some ts)
  assume inv: "timers_owned m"
  define ts1 where "ts1 = ts\<lparr>currentX := x, currentY := y\<rparr>"
  have c: "timers (clearLongPress ts1 m) = []"
  proof -
    have "clearLongPress ts1 m = clearLongPress ts m"
      by (simp add: clearLongPress_def ts1_def)
    then show ?thesis using timers_owned_cleared [OF inv Some] by simp
  qed
  show ?thesis
    using inv Some c
    by (auto simp: timers_owned_def handleTouchMove_def Let_def ts1_def)
qed

lemma timers_owned_fire: "timers_owned m \<Longrightarrow> timers_owned (timerFires now t m)"
proof (cases "find (\<lambda>p. fst p = t) (timers m)")
  case None
  assume "timers_owned m"
  then show ?thesis using None by (simp add: timerFires_def)
next
  case (Some p)
  assume inv: "timers_owned m"
  have p: "p \<in> set (timers m)" "fst p = t"
    using Some by (auto simp: find_Some_iff)
  obtain ts where ts: "touchState m = Some ts" "longPressTimer ts = Some t" "\<not> isDragging ts"
    using timers_owned_owner [OF inv p(1)] p(2) by auto
  have "clearTimeout t m = clearLongPress ts m"
    by (simp add: clearLongPress_def ts)
  then have c: "timers (clearTimeout t m) = []"
    using timers_owned_cleared [OF inv ts(1)] by simp
  have t': "touchState (clearTimeout t m) = Some ts" "nextTimer (clearTimeout t m) = nextTimer m"
    by (simp_all add: clearTimeout_def ts)
  have n: "t < nextTimer m" using inv ts by (auto simp: timers_owned_def)
  show ?thesis
    using Some c t' ts n
    by (cases p) (simp add: timers_owned_def timerFires_def Let_def)
qed

lemma timers_owned_step: "timers_owned m \<Longrightarrow> timers_owned (im_step m c)"
  by (cases c)
     (simp_all add: timers_owned_on_off timers_owned_start timers_owned_move timers_owned_end
        timers_owned_fire timers_owned_clear)

lemma timers_owned_run: "timers_owned m \<Longrightarrow> timers_owned (im_run m calls)"
  by (induction calls arbitrary: m) (simp_all add: timers_owned_step)

lemma discarded_timer_not_pending:
  assumes inv: "timers_owned m" and ts: "touchState m = Some ts" "longPressTimer ts = Some t"
    and c: "discards c"
  shows "t \<notin> fst ` set (timers (im_step m c))"
proof (cases c)
  case (TouchStart now x y)
  have "timers (clearLongPress ts m) = []" using inv ts(1) by (rule timers_owned_cleared)
  moreover have "t < nextTimer m" using inv ts by (auto simp: timers_owned_def)
  ultimately show ?thesis
    using TouchStart ts by (simp add: handleTouchStart_def Let_def)
next
  case (TouchEnd now x y)
  have "timers (clearLongPress ts m) = []" using inv ts(1) by (rule timers_owned_cleared)
  then show ?thesis
    using TouchEnd ts by (simp add: handleTouchEnd_def Let_def)
next
  case Clear
  have inv': "timers_owned (m\<lparr>listeners := (\<lambda>ty. [])\<rparr>)"
    using inv by (auto simp: timers_owned_def)
  have "timers (clearLongPress ts (m\<lparr>listeners := (\<lambda>ty. [])\<rparr>)) = []"
    using inv' by (rule timers_owned_cleared) (simp add: ts)
  then show ?thesis
    using Clear ts by (simp add: clear_def)
qed (use c in simp_all)

text \<open>
  C7. In every state the manager reaches from its construction, by any calls of its
  methods and any firing of timeouts: a pending timeout is the long-press timer of
  the touch state the manager holds now, and that touch has not become a drag; with
  no touch state nothing is pending; and a call that drops the touch state (a touch
  end, \<open>clear\<close>, or a new touch start) leaves the timer of the dropped state not pending.
\<close>

theorem long_press_timer_never_leaks:
  "let m = im_run (InputManager_new cfg) calls in
     (\<forall>p \<in> set (timers m).
        \<exists>ts. touchState m = Some ts \<and> longPressTimer ts = Some (fst p) \<and> \<not> isDragging ts)
     \<and> (touchState m = None \<longrightarrow> timers m = [])
     \<and> (\<forall>ts. touchState m = Some ts \<and> isDragging ts \<longrightarrow> timers m = [])
     \<and> (\<forall>ts t c. touchState m = Some ts \<and> longPressTimer ts = Some t \<and> discards c
            \<longrightarrow> t \<notin> fst ` set (timers (im_step m c)))"
proof -
  define m where "m = im_run (InputManager_new cfg) calls"
  have inv: "timers_owned m"
    unfolding m_def by (rule timers_owned_run) (rule timers_owned_new)
  have a: "\<forall>p \<in> set (timers m).
        \<exists>ts. touchState m = Some ts \<and> longPressTimer ts = Some (fst p) \<and> \<not> isDragging ts"
    using inv by (simp add: timers_owned_def)
  have b: "touchState m = None \<longrightarrow> timers m = []"
    using inv by (auto intro: timers_owned_idle)
  have c: "\<forall>ts. touchState m = Some ts \<and> isDragging ts \<longrightarrow> timers m = []"
  proof (intro allI impI)
    fix ts assume "touchState m = Some ts \<and> isDragging ts"
    then have "p \<notin> set (timers m)" for p using a by fastforce
    then show "timers m = []" by (rule no_member_Nil)
  qed
  have d: "\<forall>ts t c. touchState m = Some ts \<and> longPressTimer ts = Some t \<and> discards c
            \<longrightarrow> t \<notin> fst ` set (timers (im_step m c))"
  proof (intro allI impI)
    fix ts t c
    assume h: "touchState m = Some ts \<and> longPressTimer ts = Some t \<and> discards c"
    show "t \<notin> fst ` set (timers (im_step m c))"
      using inv h by (intro discarded_timer_not_pending [of m ts t c]) simp_all
  qed
  show ?thesis
    unfolding Let_def m_def [symmetric] using a b c d by (intro conjI)
qed

theorem long_press_timer_never_leaks_witness:
  "timers (im_run (InputManager_new DEFAULT_INPUT_CONFIG) [TouchStart 1000 5 5]) = [(0, 5, 5)]
   \<and> 0 \<notin> fst ` set (timers (im_step
          (im_run (InputManager_new DEFAULT_INPUT_CONFIG) [TouchStart 1000 5 5])
          (TouchEnd 1100 5 5)))"
proof -
  define m where "m = im_run (InputManager_new DEFAULT_INPUT_CONFIG) [TouchStart 1000 5 5]"
  define ts where "ts = \<lparr> startX = 5, startY = 5, currentX = 5, currentY = 5, startTime = 1000,
      lastTapTime = 0, isDragging = False, longPressTriggered = False,
      longPressTimer = Some (0::nat) \<rparr>"
  have m: "touchState m = Some ts" "timers m = [(0, 5, 5)]"
    by (simp_all add: m_def ts_def InputManager_new_def handleTouchStart_def Let_def)
  have h: "touchState m = Some ts \<and> longPressTimer ts = Some 0 \<and> discards (TouchEnd 1100 5 5)"
    by (simp add: m ts_def)
  have "\<forall>ts t c. touchState m = Some ts \<and> longPressTimer ts = Some t \<and> discards c
            \<longrightarrow> t \<notin> fst ` set (timers (im_step m c))"
    using long_press_timer_never_leaks [of DEFAULT_INPUT_CONFIG "[TouchStart 1000 5 5]"]
    unfolding Let_def m_def [symmetric] by (elim conjE)
  then have "0 \<notin> fst ` set (timers (im_step m (TouchEnd 1100 5 5)))"
    using h by blast
  then show ?thesis
    using m(2) unfolding m_def by simp
qed

text \<open>
  The last tap time does not survive a touch: the touch end stores it in the touch
  state and then drops that state, so a touch state the manager holds always has
  \<open>lastTapTime = 0\<close>, and a tap is a double tap only when the clock itself reads less
  than \<open>doubleTapThreshold\<close>.
\<close>

lemma lastTapTime_step:
  assumes "\<forall>ts. touchState m = Some ts \<longrightarrow> lastTapTime ts = 0"
  shows "\<forall>ts. touchState (im_step m c) = Some ts \<longrightarrow> lastTapTime ts = 0"
proof (cases c)
  case (TouchStart now x y)
  then show ?thesis
    using assms by (auto simp: handleTouchStart_def Let_def split: option.splits)
next
  case (TouchMove now x y)
  then show ?thesis
    using assms by (auto simp: handleTouchMove_def Let_def split: option.splits if_splits)
next
  case (TouchEnd now x y)
  then show ?thesis
    by (simp add: handleTouchEnd_def Let_def split: option.splits)
next
  case (TimerFires now t)
  then show ?thesis
    using assms
    by (auto simp: timerFires_def clearTimeout_def Let_def split: option.splits if_splits)
next
  case Clear
  then show ?thesis by (simp add: clear_def Let_def)
qed (use assms in \<open>simp_all add: on_def off_def\<close>)

lemma no_double_tap_step:
  assumes "\<forall>ts. touchState m = Some ts \<longrightarrow> lastTapTime ts = 0"
    and "\<forall>now. call_time c = Some now \<longrightarrow> doubleTapThreshold (config m) \<le> now"
    and "\<forall>e \<in> set (emitted m). ev_type e \<noteq> double_tap"
  shows "\<forall>e \<in> set (emitted (im_step m c)). ev_type e \<noteq> double_tap"
proof (cases c)
  case (TouchStart now x y)
  then show ?thesis
    using assms(3) by (simp add: handleTouchStart_effect)
next
  case (TouchMove now x y)
  then show ?thesis
    using assms(3) by (auto simp: handleTouchMove_def Let_def split: option.splits if_splits)
next
  case (TouchEnd now x y)
  show ?thesis
  proof (cases "touchState m")
    case None
    then show ?thesis using TouchEnd assms(3) by (simp add: handleTouchEnd_def)
  next
    case (Some ts)
    have z: "lastTapTime ts = 0" using assms(1) Some by simp
    have n: "\<not> now < doubleTapThreshold (config m)" using assms(2) TouchEnd by simp
    show ?thesis
      using TouchEnd Some z n assms(3)
      by (simp add: handleTouchEnd_def Let_def detectSwipeDirection_def)
  qed
next
  case (TimerFires now t)
  then show ?thesis
    using assms(3)
    by (auto simp: timerFires_def clearTimeout_def Let_def split: option.splits if_splits)
next
  case Clear
  then show ?thesis
    using assms(3) by (simp add: clear_def Let_def split: option.splits)
qed (use assms(3) in \<open>simp_all add: on_def off_def\<close>)

lemma config_step: "config (im_step m c) = config m"
proof (cases c)
  case (TouchMove now x y)
  then show ?thesis
    by (simp add: handleTouchMove_def Let_def split: option.splits)
next
  case (TouchEnd now x y)
  then show ?thesis
    by (simp add: handleTouchEnd_def Let_def split: option.splits)
next
  case (TimerFires now t)
  then show ?thesis
    by (simp add: timerFires_def clearTimeout_def Let_def split: option.splits prod.splits)
qed (simp_all add: on_def off_def handleTouchStart_effect clear_def Let_def split: option.splits)

lemma double_tap_never_emitted:
  assumes "\<forall>c \<in> set calls. \<forall>now. call_time c = Some now \<longrightarrow> doubleTapThreshold (config m) \<le> now"
    and "\<forall>ts. touchState m = Some ts \<longrightarrow> lastTapTime ts = 0"
    and "\<forall>e \<in> set (emitted m). ev_type e \<noteq> double_tap"
  shows "\<forall>e \<in> set (emitted (im_run m calls)). ev_type e \<noteq> double_tap"
  using assms
proof (induction calls arbitrary: m)
  case Nil
  then show ?case by simp
next
  case (Cons c calls)
  have a: "\<forall>ts. touchState (im_step m c) = Some ts \<longrightarrow> lastTapTime ts = 0"
    using Cons.prems(2) by (rule lastTapTime_step)
  have b: "\<forall>e \<in> set (emitted (im_step m c)). ev_type e \<noteq> double_tap"
    using Cons.prems by (intro no_double_tap_step) simp_all
  have c: "\<forall>c' \<in> set calls. \<forall>now. call_time c' = Some now \<longrightarrow>
      doubleTapThreshold (config (im_step m c)) \<le> now"
    using Cons.prems(1) by (simp add: config_step)
  show ?case
    using Cons.IH [OF c a b] by simp
qed

text \<open>
  C1 (the code departs from it). With the default configuration and a real clock:
  a tap, then a second tap 100 ms after the first, then a third 100 ms later. The
  claim asks for \<open>tap\<close>, \<open>double_tap\<close>, \<open>tap\<close>; the manager emits \<open>tap\<close> three times,
  because the touch state that holds the time of the last tap is dropped at every
  touch end.
\<close>

theorem rapid_taps_emit_only_tap:
  "map ev_type (emitted (im_run (InputManager_new DEFAULT_INPUT_CONFIG)
     [TouchStart 1700000000000 100 100, TouchEnd 1700000000050 100 100,
      TouchStart 1700000000150 100 100, TouchEnd 1700000000200 100 100,
      TouchStart 1700000000300 100 100, TouchEnd 1700000000350 100 100]))
   = [tap, tap, tap]"
  by (simp add: InputManager_new_def DEFAULT_INPUT_CONFIG_def handleTouchStart_def
      handleTouchEnd_def clearLongPress_def clearTimeout_def emit_event_def mkEvent_def Let_def)

end
